theory Spec2Isabelle
  imports Complex_Main "HOL-Library.Word" "HOL-Library.Stream" "HOL-Library.Multiset"
begin

section \<open>GeneticArt: the evolutionary core of main.cpp\<close>

text \<open>
  The program approximates a 512x512 bitmap by a population of chromosomes, each a
  fixed array of semi-transparent triangles, evolved by crossover and mutation.
  This theory embeds the data model and the operators of \<^verbatim>\<open>main.cpp\<close> and proves
  properties of them.

  Conventions of the embedding:
  \<^item> a C array of fixed size is a function from indices; only the indices below the
    declared bound are ever read or written by the code;
  \<^item> a \<^verbatim>\<open>double\<close> is a real number or one of the three special values of IEEE
    arithmetic; rounding and the sign of zero are not modelled;
  \<^item> the global \<^verbatim>\<open>seed\<close> that \<^verbatim>\<open>rand_r\<close> advances is the stream of the raw
    values still to be drawn;
  \<^item> rendering through OpenGL and \<^verbatim>\<open>std::sort\<close> are parameters.
\<close>

subsection \<open>Macros\<close>

definition POP_SIZE :: nat where
  "POP_SIZE = 30"

definition N :: nat where
  "N = 150"

definition V :: nat where
  "V = 3"

definition OPACITY :: real where
  "OPACITY = 15 / 100"

text \<open>
  \<^verbatim>\<open>RAND_MAX\<close> of the GNU C library, the platform the source file requires: \<open>2^31 - 1\<close>.
  A raw value of \<^verbatim>\<open>rand_r\<close> lies in \<open>[0, RAND_MAX]\<close>, that is, it is a 31-bit word.
\<close>

definition RAND_MAX :: nat where
  "RAND_MAX = 2147483647"

type_synonym rng = "31 word stream"

definition rand_r :: "rng \<Rightarrow> nat \<times> rng" where
  "rand_r s = (unat (shd s), stl s)"

text \<open>\<^verbatim>\<open>#define U_RND ((double)rand_r(&seed) / RAND_MAX)\<close>\<close>

definition U_RND :: "rng \<Rightarrow> real \<times> rng" where
  "U_RND s = (case rand_r s of (r, s') \<Rightarrow> (real r / real RAND_MAX, s'))"

text \<open>
  \<^verbatim>\<open>#define RND (2.0 * (double)rand_r(&seed) / RAND_MAX - 1.0)\<close>
  The program rounds the quotient to a double before it subtracts: at the raw values
  \<open>2^30\<close> and \<open>2^30 - 1\<close> it computes \<open>2^-31\<close> and \<open>- 2^-31\<close> where the exact value is
  \<open>1 / RAND_MAX\<close> and \<open>- 1 / RAND_MAX\<close>. What is proved of a draw below (it is not zero,
  it lies in \<open>[-1, 1]\<close>, its sign) holds of the rounded value too.
\<close>

definition RND :: "rng \<Rightarrow> real \<times> rng" where
  "RND s = (case rand_r s of (r, s') \<Rightarrow> (2 * real r / real RAND_MAX - 1, s'))"

subsection \<open>Doubles\<close>

datatype double = Finite real | PInf | NInf | NaN

fun dadd :: "double \<Rightarrow> double \<Rightarrow> double" where
  "dadd NaN y = NaN"
| "dadd x NaN = NaN"
| "dadd PInf NInf = NaN"
| "dadd NInf PInf = NaN"
| "dadd PInf y = PInf"
| "dadd NInf y = NInf"
| "dadd (Finite a) PInf = PInf"
| "dadd (Finite a) NInf = NInf"
| "dadd (Finite a) (Finite b) = Finite (a + b)"

text \<open>
  Division of a finite numerator, the only one the program performs. A zero divisor
  gives an infinity, or NaN for \<open>0 / 0\<close>; nothing traps.
\<close>

fun ddiv :: "real \<Rightarrow> double \<Rightarrow> double" where
  "ddiv a NaN = NaN"
| "ddiv a PInf = Finite 0"
| "ddiv a NInf = Finite 0"
| "ddiv a (Finite b) =
     (if b = 0 then (if a = 0 then NaN else if 0 < a then PInf else NInf)
      else Finite (a / b))"

text \<open>The comparisons \<^verbatim>\<open><\<close> and \<^verbatim>\<open>>\<close>; every comparison with NaN is false.\<close>

fun dlt :: "double \<Rightarrow> double \<Rightarrow> bool" where
  "dlt NaN y = False"
| "dlt x NaN = False"
| "dlt PInf y = False"
| "dlt NInf y = (y \<noteq> NInf)"
| "dlt (Finite a) PInf = True"
| "dlt (Finite a) NInf = False"
| "dlt (Finite a) (Finite b) = (a < b)"

definition dgt :: "double \<Rightarrow> double \<Rightarrow> bool" where
  "dgt x y = dlt y x"

subsection \<open>Chromosome\<close>

text \<open>
  \<^verbatim>\<open>double point[N][V][2]; double color[N][4]; ll fit_val;\<close>
  The member \<^verbatim>\<open>window\<close> is the scratch buffer that \<^verbatim>\<open>glReadPixels\<close> fills at
  every call of \<^verbatim>\<open>fitness\<close>; it carries nothing from one call to the next.
\<close>

record Chromosome =
  point :: "nat \<Rightarrow> nat \<Rightarrow> nat \<Rightarrow> double"
  color :: "nat \<Rightarrow> nat \<Rightarrow> double"
  fit_val :: "64 word"

text \<open>The assignments \<^verbatim>\<open>c.point[i][j][k] = v\<close> and \<^verbatim>\<open>c.color[i][k] = v\<close>.\<close>

definition set_point :: "Chromosome \<Rightarrow> nat \<Rightarrow> nat \<Rightarrow> nat \<Rightarrow> double \<Rightarrow> Chromosome" where
  "set_point c i j k v = c\<lparr>point := (point c)(i := (point c i)(j := (point c i j)(k := v)))\<rparr>"

definition set_color :: "Chromosome \<Rightarrow> nat \<Rightarrow> nat \<Rightarrow> double \<Rightarrow> Chromosome" where
  "set_color c i k v = c\<lparr>color := (color c)(i := (color c i)(k := v))\<rparr>"

text \<open>
  A triangle: its six coordinates and its three colour channels. The alpha channel,
  \<open>color c i 3\<close>, is apart.
\<close>

definition vertices :: "Chromosome \<Rightarrow> nat \<Rightarrow> double list" where
  "vertices c i = concat (map (\<lambda>j. [point c i j 0, point c i j 1]) [0..<V])"

definition rgb :: "Chromosome \<Rightarrow> nat \<Rightarrow> double list" where
  "rgb c i = [color c i 0, color c i 1, color c i 2]"

definition triangle_at :: "Chromosome \<Rightarrow> nat \<Rightarrow> double list \<times> double list" where
  "triangle_at c i = (vertices c i, rgb c i)"

subsection \<open>Crossover\<close>

text \<open>The body of the two copying branches: both coordinates of vertex \<open>j\<close> of triangle \<open>i\<close>.\<close>

definition copy_vertex :: "Chromosome \<Rightarrow> nat \<Rightarrow> nat \<Rightarrow> Chromosome \<Rightarrow> Chromosome" where
  "copy_vertex a i j c =
     set_point (set_point c i j 0 (point a i j 0)) i j 1 (point a i j 1)"

definition copy_color :: "Chromosome \<Rightarrow> nat \<Rightarrow> Chromosome \<Rightarrow> Chromosome" where
  "copy_color a i c =
     set_color (set_color (set_color c i 0 (color a i 0)) i 1 (color a i 1)) i 2 (color a i 2)"

text \<open>\<^verbatim>\<open>int p = ceil(U_RND * N);\<close>\<close>

definition cut_index :: "rng \<Rightarrow> nat \<times> rng" where
  "cut_index s = (case U_RND s of (u, s') \<Rightarrow> (nat \<lceil>u * real N\<rceil>, s'))"

text \<open>
  \<^verbatim>\<open>one_point_co(a, b, c)\<close>: the parents are passed by value, the child by reference.
  The first loop nest copies the vertices, the second the colour channels 0..2.
\<close>

definition one_point_co ::
  "Chromosome \<Rightarrow> Chromosome \<Rightarrow> Chromosome \<Rightarrow> rng \<Rightarrow> Chromosome \<times> rng" where
  "one_point_co a b c s =
     (case cut_index s of (p, s') \<Rightarrow>
        let c1 = fold (\<lambda>i. fold (\<lambda>j. if i < p then copy_vertex a i j else copy_vertex b i j)
                               [0..<V]) [0..<N] c;
            c2 = fold (\<lambda>i. if i < p then copy_color a i else copy_color b i) [0..<N] c1
        in (c2, s'))"

text \<open>
  \<^verbatim>\<open>n_points_co(a, b, c)\<close>: the coin is drawn inside the loop over the vertices, and
  each branch copies one vertex and the three colour channels of the triangle.
\<close>

definition n_points_step ::
  "Chromosome \<Rightarrow> Chromosome \<Rightarrow> nat \<Rightarrow> nat \<Rightarrow> Chromosome \<times> rng \<Rightarrow> Chromosome \<times> rng" where
  "n_points_step a b i j cs =
     (case cs of (c, s) \<Rightarrow>
        case U_RND s of (u, s') \<Rightarrow>
          if u < 0.5 then (copy_color a i (copy_vertex a i j c), s')
          else (copy_color b i (copy_vertex b i j c), s'))"

definition n_points_co ::
  "Chromosome \<Rightarrow> Chromosome \<Rightarrow> Chromosome \<Rightarrow> rng \<Rightarrow> Chromosome \<times> rng" where
  "n_points_co a b c s =
     fold (\<lambda>i. fold (n_points_step a b i) [0..<V]) [0..<N] (c, s)"

text \<open>The parent that the coin at the head of the stream selects.\<close>

definition donor :: "Chromosome \<Rightarrow> Chromosome \<Rightarrow> rng \<Rightarrow> Chromosome" where
  "donor a b s = (if fst (U_RND s) < 0.5 then a else b)"

subsection \<open>Mutation\<close>

text \<open>
  \<^verbatim>\<open>mutate_change\<close>. Each statement \<^verbatim>\<open>if (U_RND > 0.5f) point[i][j][k] = U_RND;\<close>
  draws the coin and, when it is taken, the new value.
\<close>

definition change_coord :: "nat \<Rightarrow> nat \<Rightarrow> nat \<Rightarrow> Chromosome \<times> rng \<Rightarrow> Chromosome \<times> rng" where
  "change_coord i j k cs =
     (case cs of (c, s) \<Rightarrow>
        case U_RND s of (u, s1) \<Rightarrow>
          if u > 0.5 then (case U_RND s1 of (v, s2) \<Rightarrow> (set_point c i j k (Finite v), s2))
          else (c, s1))"

definition change_color :: "nat \<Rightarrow> Chromosome \<times> rng \<Rightarrow> Chromosome \<times> rng" where
  "change_color i cs =
     (case cs of (c, s) \<Rightarrow>
        case U_RND s of (u, s1) \<Rightarrow>
          if u > 0.5 then
            (case U_RND s1 of (v0, s2) \<Rightarrow>
             case U_RND s2 of (v1, s3) \<Rightarrow>
             case U_RND s3 of (v2, s4) \<Rightarrow>
               (set_color (set_color (set_color c i 0 (Finite v0)) i 1 (Finite v1))
                  i 2 (Finite v2), s4))
          else (c, s1))"

definition change_triangle :: "nat \<Rightarrow> Chromosome \<times> rng \<Rightarrow> Chromosome \<times> rng" where
  "change_triangle i cs =
     change_color i (fold (\<lambda>j cs. change_coord i j 1 (change_coord i j 0 cs)) [0..<V] cs)"

definition mutate_change :: "Chromosome \<Rightarrow> rng \<Rightarrow> Chromosome \<times> rng" where
  "mutate_change c s = fold change_triangle [0..<N] (c, s)"

text \<open>
  \<^verbatim>\<open>mutate_disturb(double disturb)\<close>. The test
  \<^verbatim>\<open>x < .0f || x > 1.f\<close> and the statement it guards, \<^verbatim>\<open>x = U_RND\<close>, come five
  times in the loop body, outside the branches that perturb.
\<close>

definition out_of_unit :: "double \<Rightarrow> bool" where
  "out_of_unit x = (dlt x (Finite 0) \<or> dgt x (Finite 1))"

definition redraw_point :: "nat \<Rightarrow> nat \<Rightarrow> nat \<Rightarrow> Chromosome \<times> rng \<Rightarrow> Chromosome \<times> rng" where
  "redraw_point j k l cs =
     (case cs of (c, s) \<Rightarrow>
        if out_of_unit (point c j k l)
        then (case U_RND s of (v, s') \<Rightarrow> (set_point c j k l (Finite v), s'))
        else (c, s))"

definition redraw_color :: "nat \<Rightarrow> nat \<Rightarrow> Chromosome \<times> rng \<Rightarrow> Chromosome \<times> rng" where
  "redraw_color j l cs =
     (case cs of (c, s) \<Rightarrow>
        if out_of_unit (color c j l)
        then (case U_RND s of (v, s') \<Rightarrow> (set_color c j l (Finite v), s'))
        else (c, s))"

text \<open>\<^verbatim>\<open>point[j][k][l] += RND / disturb;\<close> and \<^verbatim>\<open>color[j][l] += 10 * RND / disturb;\<close>\<close>

definition add_point ::
  "double \<Rightarrow> nat \<Rightarrow> nat \<Rightarrow> nat \<Rightarrow> Chromosome \<times> rng \<Rightarrow> Chromosome \<times> rng" where
  "add_point disturb j k l cs =
     (case cs of (c, s) \<Rightarrow>
        case RND s of (r, s') \<Rightarrow>
          (set_point c j k l (dadd (point c j k l) (ddiv r disturb)), s'))"

definition add_color :: "double \<Rightarrow> nat \<Rightarrow> nat \<Rightarrow> Chromosome \<times> rng \<Rightarrow> Chromosome \<times> rng" where
  "add_color disturb j l cs =
     (case cs of (c, s) \<Rightarrow>
        case RND s of (r, s') \<Rightarrow>
          (set_color c j l (dadd (color c j l) (ddiv (10 * r) disturb)), s'))"

text \<open>The two conditional blocks of the loop body, before the range tests.\<close>

definition perturb_vertex ::
  "double \<Rightarrow> nat \<Rightarrow> nat \<Rightarrow> Chromosome \<times> rng \<Rightarrow> Chromosome \<times> rng" where
  "perturb_vertex disturb j k cs =
     (case cs of (c, s) \<Rightarrow>
        case U_RND s of (u, s1) \<Rightarrow>
          if u < 0.25
          then add_point disturb j k 1 (add_point disturb j k 0 (c, s1))
          else (c, s1))"

definition perturb_color :: "double \<Rightarrow> nat \<Rightarrow> Chromosome \<times> rng \<Rightarrow> Chromosome \<times> rng" where
  "perturb_color disturb j cs =
     (case cs of (c, s) \<Rightarrow>
        case U_RND s of (u, s1) \<Rightarrow>
          if u < 0.5
          then add_color disturb j 2 (add_color disturb j 1 (add_color disturb j 0 (c, s1)))
          else (c, s1))"

definition disturb_vertex ::
  "double \<Rightarrow> nat \<Rightarrow> nat \<Rightarrow> Chromosome \<times> rng \<Rightarrow> Chromosome \<times> rng" where
  "disturb_vertex disturb j k cs =
     redraw_point j k 1 (redraw_point j k 0 (perturb_vertex disturb j k cs))"

definition disturb_color :: "double \<Rightarrow> nat \<Rightarrow> Chromosome \<times> rng \<Rightarrow> Chromosome \<times> rng" where
  "disturb_color disturb j cs =
     redraw_color j 2 (redraw_color j 1 (redraw_color j 0 (perturb_color disturb j cs)))"

definition disturb_triangle :: "double \<Rightarrow> nat \<Rightarrow> Chromosome \<times> rng \<Rightarrow> Chromosome \<times> rng" where
  "disturb_triangle disturb j cs =
     disturb_color disturb j (fold (disturb_vertex disturb j) [0..<V] cs)"

definition mutate_disturb :: "double \<Rightarrow> Chromosome \<Rightarrow> rng \<Rightarrow> Chromosome \<times> rng" where
  "mutate_disturb disturb c s = fold (disturb_triangle disturb) [0..<N] (c, s)"

text \<open>
  The state of \<^verbatim>\<open>mutate_disturb\<close> when its loops reach vertex \<open>k\<close> of triangle \<open>j\<close>,
  and when they reach the colour of triangle \<open>j\<close>.
\<close>

definition before_vertex :: "double \<Rightarrow> Chromosome \<Rightarrow> rng \<Rightarrow> nat \<Rightarrow> nat \<Rightarrow> Chromosome \<times> rng" where
  "before_vertex disturb c s j k =
     fold (disturb_vertex disturb j) [0..<k] (fold (disturb_triangle disturb) [0..<j] (c, s))"

definition before_color :: "double \<Rightarrow> Chromosome \<Rightarrow> rng \<Rightarrow> nat \<Rightarrow> Chromosome \<times> rng" where
  "before_color disturb c s j = before_vertex disturb c s j V"

text \<open>A value of the closed interval \<open>[0, 1]\<close>, and a chromosome made of such values.\<close>

definition in_unit :: "double \<Rightarrow> bool" where
  "in_unit x = (case x of Finite v \<Rightarrow> 0 \<le> v \<and> v \<le> 1 | _ \<Rightarrow> False)"

definition bounded :: "Chromosome \<Rightarrow> bool" where
  "bounded c =
     (\<forall>j<N. (\<forall>k<V. \<forall>l<2. in_unit (point c j k l)) \<and> (\<forall>l<3. in_unit (color c j l)))"

subsection \<open>Fitness\<close>

text \<open>
  Modelled from the spec: \<^verbatim>\<open>image_reader.h\<close> is not among the sources. The target
  image is an immutable RGB buffer of known width and height, three bytes a pixel.
\<close>

record ImageReader =
  width :: nat
  height :: nat
  pixel :: "8 word list"

text \<open>
  One channel of one pixel: the two bytes are promoted to \<^verbatim>\<open>int\<close>, subtracted and
  multiplied; the result is at most \<open>255 * 255\<close>.
\<close>

definition sq_diff :: "8 word \<Rightarrow> 8 word \<Rightarrow> int" where
  "sq_diff w p = (uint w - uint p) * (uint w - uint p)"

text \<open>
  The loop of \<^verbatim>\<open>fitness\<close> over a rendered buffer \<open>window\<close>; the accumulator is a
  \<^verbatim>\<open>long long\<close>, whose addition wraps in the model.
\<close>

function fit_loop :: "8 word list \<Rightarrow> 8 word list \<Rightarrow> nat \<Rightarrow> nat \<Rightarrow> 64 word \<Rightarrow> 64 word" where
  "fit_loop window pix n i fit =
     (if i < n
      then fit_loop window pix n (i + 3)
             (fit + word_of_int (sq_diff (window ! i) (pix ! i)
                               + sq_diff (window ! (i + 1)) (pix ! (i + 1))
                               + sq_diff (window ! (i + 2)) (pix ! (i + 2))))
      else fit)"
  by pat_completeness auto
termination
  by (relation "measure (\<lambda>(window, pix, n, i, fit). n - i)") auto

declare fit_loop.simps [simp del]

text \<open>
  \<^verbatim>\<open>fitness()\<close>: \<open>render c\<close> is the buffer that \<^verbatim>\<open>glReadPixels\<close> returns after
  \<^verbatim>\<open>draw()\<close>, \<open>width * height * 3\<close> bytes.
\<close>

definition fitness :: "(Chromosome \<Rightarrow> 8 word list) \<Rightarrow> ImageReader \<Rightarrow> Chromosome \<Rightarrow> 64 word" where
  "fitness render input c =
     fit_loop (render c) (pixel input) (width input * height input * 3) 0 0"

text \<open>The squared error of pixel \<open>t\<close>, over its three channels.\<close>

definition px :: "8 word list \<Rightarrow> 8 word list \<Rightarrow> nat \<Rightarrow> int" where
  "px window pix t = (\<Sum>ch<3. sq_diff (window ! (3 * t + ch)) (pix ! (3 * t + ch)))"

text \<open>\<^verbatim>\<open>Chromosome::key\<close>, the comparison given to \<^verbatim>\<open>std::sort\<close>.\<close>

definition key :: "Chromosome \<Rightarrow> Chromosome \<Rightarrow> bool" where
  "key a b = (sint (fit_val a) < sint (fit_val b))"

text \<open>
  What the C++ standard promises of \<^verbatim>\<open>std::sort\<close>: the result is a permutation of the
  input ordered by the comparison; the order of equivalent elements is not fixed.
\<close>

definition sorted_by_fitness :: "Chromosome list \<Rightarrow> bool" where
  "sorted_by_fitness pop = sorted_wrt (\<lambda>a b. \<not> key b a) pop"

definition sorts_by_key :: "(Chromosome list \<Rightarrow> Chromosome list) \<Rightarrow> bool" where
  "sorts_by_key srt = (\<forall>xs. mset (srt xs) = mset xs \<and> sorted_by_fitness (srt xs))"

text \<open>The best cached score of a population.\<close>

definition min_fit :: "Chromosome list \<Rightarrow> int" where
  "min_fit pop = Min (set (map (\<lambda>c. sint (fit_val c)) pop))"

subsection \<open>The generation loop\<close>

record State =
  population :: "Chromosome list"
  seed :: rng
  epochs :: int

text \<open>
  \<^verbatim>\<open>((int) round(U_RND * POP_SIZE)) % POP_SIZE\<close>; the argument of \<^verbatim>\<open>round\<close> is
  not negative, where rounding half away from zero is rounding half up.
\<close>

definition pick_index :: "rng \<Rightarrow> nat \<times> rng" where
  "pick_index s = (case U_RND s of (u, s') \<Rightarrow> (nat (round (u * real POP_SIZE)) mod POP_SIZE, s'))"

text \<open>The lower bound of the loop, \<^verbatim>\<open>POP_SIZE - ceil(POP_SIZE * 0.75)\<close>.\<close>

definition first_regenerated :: nat where
  "first_regenerated = nat (int POP_SIZE - \<lceil>real POP_SIZE * 0.75\<rceil>)"

text \<open>\<^verbatim>\<open>mutate_disturb(500 * RND)\<close>: the argument.\<close>

definition disturb_intensity :: "rng \<Rightarrow> real \<times> rng" where
  "disturb_intensity s = (case RND s of (r, s') \<Rightarrow> (500 * r, s'))"

definition regenerate :: "nat \<Rightarrow> Chromosome list \<times> rng \<Rightarrow> Chromosome list \<times> rng" where
  "regenerate i ps =
     (case ps of (pop, s) \<Rightarrow>
        case U_RND s of (u, s1) \<Rightarrow>
          if u < 0.95 then
            (case pick_index s1 of (a, s2) \<Rightarrow>
             case pick_index s2 of (b, s3) \<Rightarrow>
             case U_RND s3 of (v, s4) \<Rightarrow>
             case (if v < 0.5 then one_point_co (pop ! a) (pop ! b) (pop ! i) s4
                   else n_points_co (pop ! a) (pop ! b) (pop ! i) s4) of (c, s5) \<Rightarrow>
               (pop[i := c], s5))
          else
            (case U_RND s1 of (v, s2) \<Rightarrow>
               if v < 0.95 then
                 (case disturb_intensity s2 of (d, s3) \<Rightarrow>
                  case mutate_disturb (Finite d) (pop ! i) s3 of (c, s4) \<Rightarrow> (pop[i := c], s4))
               else
                 (case mutate_change (pop ! i) s2 of (c, s3) \<Rightarrow> (pop[i := c], s3))))"

text \<open>The body of the loop of \<^verbatim>\<open>gl_idle\<close>: regenerate slot \<open>i\<close>, then store its fitness.\<close>

definition gl_idle_slot ::
  "(Chromosome \<Rightarrow> 8 word list) \<Rightarrow> ImageReader \<Rightarrow> nat \<Rightarrow> Chromosome list \<times> rng
     \<Rightarrow> Chromosome list \<times> rng" where
  "gl_idle_slot render input i ps =
     (case regenerate i ps of (pop, s) \<Rightarrow>
        (pop[i := (pop ! i)\<lparr>fit_val := fitness render input (pop ! i)\<rparr>], s))"

definition gl_idle ::
  "(Chromosome list \<Rightarrow> Chromosome list) \<Rightarrow> (Chromosome \<Rightarrow> 8 word list) \<Rightarrow> ImageReader
     \<Rightarrow> State \<Rightarrow> State" where
  "gl_idle srt render input st =
     (case fold (gl_idle_slot render input) [first_regenerated..<POP_SIZE]
             (srt (population st), seed st) of
        (pop, s) \<Rightarrow> \<lparr>population = pop, seed = s, epochs = epochs st + 1\<rparr>)"

subsection \<open>Initialisation\<close>

text \<open>The constructor leaves both arrays and \<^verbatim>\<open>fit_val\<close> zero-initialised.\<close>

definition Chromosome0 :: Chromosome where
  "Chromosome0 = \<lparr>point = (\<lambda>i j k. Finite 0), color = (\<lambda>i k. Finite 0), fit_val = 0\<rparr>"

definition gen_point :: "nat \<Rightarrow> nat \<Rightarrow> nat \<Rightarrow> Chromosome \<times> rng \<Rightarrow> Chromosome \<times> rng" where
  "gen_point j k l cs =
     (case cs of (c, s) \<Rightarrow> case U_RND s of (v, s') \<Rightarrow> (set_point c j k l (Finite v), s'))"

definition gen_color :: "nat \<Rightarrow> nat \<Rightarrow> Chromosome \<times> rng \<Rightarrow> Chromosome \<times> rng" where
  "gen_color j l cs =
     (case cs of (c, s) \<Rightarrow> case U_RND s of (v, s') \<Rightarrow> (set_color c j l (Finite v), s'))"

definition gen_triangle :: "nat \<Rightarrow> Chromosome \<times> rng \<Rightarrow> Chromosome \<times> rng" where
  "gen_triangle j cs =
     (case gen_color j 2 (gen_color j 1 (gen_color j 0
             (fold (\<lambda>k cs. gen_point j k 1 (gen_point j k 0 cs)) [0..<V] cs))) of
        (c, s) \<Rightarrow> (set_color c j 3 (Finite OPACITY), s))"

definition gen_pop :: "Chromosome list \<Rightarrow> rng \<Rightarrow> Chromosome list \<times> rng" where
  "gen_pop pop s =
     fold (\<lambda>i ps. case ps of (pop, s) \<Rightarrow>
                     case fold gen_triangle [0..<N] (pop ! i, s) of
                       (c, s') \<Rightarrow> (pop[i := c], s'))
          [0..<POP_SIZE] (pop, s)"

text \<open>
  \<^verbatim>\<open>main\<close> up to the start of the event loop: construct, generate, evaluate, sort.
\<close>

definition main_init ::
  "(Chromosome list \<Rightarrow> Chromosome list) \<Rightarrow> (Chromosome \<Rightarrow> 8 word list) \<Rightarrow> ImageReader
     \<Rightarrow> rng \<Rightarrow> State" where
  "main_init srt render input s0 =
     (case gen_pop (replicate POP_SIZE Chromosome0) s0 of
        (pop, s) \<Rightarrow>
          \<lparr>population = srt (map (\<lambda>c. c\<lparr>fit_val := fitness render input c\<rparr>) pop),
           seed = s, epochs = 0\<rparr>)"

text \<open>Every triangle of the genome has the configured opacity.\<close>

definition alpha_fixed :: "Chromosome \<Rightarrow> bool" where
  "alpha_fixed c = (\<forall>j<N. color c j 3 = Finite OPACITY)"

text \<open>The states of the program between two calls of \<^verbatim>\<open>gl_idle\<close>.\<close>

inductive reachable ::
  "(Chromosome list \<Rightarrow> Chromosome list) \<Rightarrow> (Chromosome \<Rightarrow> 8 word list) \<Rightarrow> ImageReader
     \<Rightarrow> State \<Rightarrow> bool"
  for srt render input where
    start: "reachable srt render input (main_init srt render input s0)"
  | generation: "reachable srt render input st \<Longrightarrow>
       reachable srt render input (gl_idle srt render input st)"

subsection \<open>Inputs of the examples\<close>

text \<open>A genome whose coordinates and colour channels all have one value, with score 0.\<close>

definition solid :: "real \<Rightarrow> Chromosome" where
  "solid v = \<lparr>point = (\<lambda>i j k. Finite v),
              color = (\<lambda>i k. if k = 3 then Finite OPACITY else Finite v),
              fit_val = 0\<rparr>"

text \<open>
  A sort that meets the contract of \<^verbatim>\<open>std::sort\<close> and reverses the elements that
  compare equal; a population of POP_SIZE genomes with one score; a black target image
  of 512 by 512 pixels and a renderer that returns a black buffer, so that every genome
  has the score 0.
\<close>

definition tie_reversing_sort :: "Chromosome list \<Rightarrow> Chromosome list" where
  "tie_reversing_sort xs = rev (sort_key (\<lambda>c. - sint (fit_val c)) xs)"

definition tied_population :: "Chromosome list" where
  "tied_population = solid 0 # replicate 29 (solid 1)"

text \<open>
  A population of POP_SIZE different genomes with the scores 0, 1, ..., in this order.
\<close>

definition ranked_population :: "Chromosome list" where
  "ranked_population =
     map (\<lambda>n. (solid (real n / 29))\<lparr>fit_val := word_of_nat n\<rparr>) [0..<POP_SIZE]"

definition black_image :: ImageReader where
  "black_image = \<lparr>width = 512, height = 512, pixel = replicate 786432 0\<rparr>"

definition black_render :: "Chromosome \<Rightarrow> 8 word list" where
  "black_render c = replicate 786432 0"

text \<open>
  Raw draws for one vertex of \<^verbatim>\<open>mutate_disturb\<close>: the coin 0, two perturbations
  of +1, then the values the range tests draw.
\<close>

definition example_draws :: rng where
  "example_draws = 0 ## 2147483647 ## 2147483647 ## 1073741824 ## sconst 0"

section \<open>Properties\<close>

subsection \<open>Loops\<close>

lemma fold_frame:
  assumes "\<And>i st. i \<in> set xs \<Longrightarrow> g (f i st) = g st"
  shows "g (fold f xs st) = g st"
  using assms by (induction xs arbitrary: st) simp_all

lemma fold_invariant:
  assumes "P st" and "\<And>i st. i \<in> set xs \<Longrightarrow> P st \<Longrightarrow> P (f i st)"
  shows "P (fold f xs st)"
  using assms by (induction xs arbitrary: st) simp_all

lemma fold_establish:
  assumes "i \<in> set xs"
    and "\<And>st. Q (f i st)"
    and "\<And>j st. j \<in> set xs \<Longrightarrow> Q st \<Longrightarrow> Q (f j st)"
  shows "Q (fold f xs st)"
  using assms
proof (induction xs arbitrary: st)
  case Nil
  then show ?case by simp
next
  case (Cons x xs)
  show ?case
  proof (cases "i \<in> set xs")
    case True
    then show ?thesis using Cons.IH [of "f x st"] Cons.prems by simp
  next
    case False
    then have "i = x" using Cons.prems(1) by simp
    then have "Q (f x st)" using Cons.prems(2) by simp
    then show ?thesis using Cons.prems(3) by (simp add: fold_invariant)
  qed
qed

subsection \<open>Arrays and crossover\<close>


lemma point_set_point [simp]:
  "point (set_point c i j k v) i' j' k' =
     (if i' = i \<and> j' = j \<and> k' = k then v else point c i' j' k')"
  by (simp add: set_point_def)

lemma color_set_point [simp]: "color (set_point c i j k v) = color c"
  by (simp add: set_point_def)

lemma fit_val_set_point [simp]: "fit_val (set_point c i j k v) = fit_val c"
  by (simp add: set_point_def)

lemma color_set_color [simp]:
  "color (set_color c i k v) i' k' = (if i' = i \<and> k' = k then v else color c i' k')"
  by (simp add: set_color_def)

lemma point_set_color [simp]: "point (set_color c i k v) = point c"
  by (simp add: set_color_def)

lemma fit_val_set_color [simp]: "fit_val (set_color c i k v) = fit_val c"
  by (simp add: set_color_def)

lemma point_copy_vertex:
  "point (copy_vertex a i j c) i' j' k' =
     (if i' = i \<and> j' = j \<and> k' < 2 then point a i j k' else point c i' j' k')"
  by (auto simp: copy_vertex_def)

lemma color_copy_vertex [simp]: "color (copy_vertex a i j c) = color c"
  by (simp add: copy_vertex_def)

lemma fit_val_copy_vertex [simp]: "fit_val (copy_vertex a i j c) = fit_val c"
  by (simp add: copy_vertex_def)

lemma color_copy_color:
  "color (copy_color a i c) i' k' =
     (if i' = i \<and> k' < 3 then color a i k' else color c i' k')"
  by (auto simp: copy_color_def)

lemma point_copy_color [simp]: "point (copy_color a i c) = point c"
  by (simp add: copy_color_def)

lemma fit_val_copy_color [simp]: "fit_val (copy_color a i c) = fit_val c"
  by (simp add: copy_color_def)


text \<open>A loop nest that copies vertex (i, j) from a donor chosen per triangle.\<close>

lemma vertex_loop_point:
  assumes F: "\<And>i j. F i j = copy_vertex (d i) i j"
    and "i < n" "j < m" "k < 2"
  shows "point (fold (\<lambda>i. fold (F i) [0..<m]) [0..<n] c) i j k = point (d i) i j k"
proof (rule fold_establish [where i = i and Q = "\<lambda>c. point c i j k = point (d i) i j k"])
  show "i \<in> set [0..<n]" using assms by simp
next
  fix st :: Chromosome
  show "point (fold (F i) [0..<m] st) i j k = point (d i) i j k"
  proof (rule fold_establish [where i = j])
    show "j \<in> set [0..<m]" using assms by simp
  qed (use assms in \<open>auto simp: point_copy_vertex\<close>)
next
  fix i' and st :: Chromosome
  assume "point st i j k = point (d i) i j k"
  then show "point (fold (F i') [0..<m] st) i j k = point (d i) i j k"
    by (rule fold_invariant) (auto simp: point_copy_vertex F)
qed

lemma vertex_loop_color:
  assumes F: "\<And>i j. F i j = copy_vertex (d i) i j"
  shows "color (fold (\<lambda>i. fold (F i) ys) xs c) = color c"
  by (rule fold_frame, rule fold_frame) (simp add: F)

lemma vertex_loop_fit_val:
  assumes F: "\<And>i j. F i j = copy_vertex (d i) i j"
  shows "fit_val (fold (\<lambda>i. fold (F i) ys) xs c) = fit_val c"
  by (rule fold_frame, rule fold_frame) (simp add: F)

lemma color_loop_color:
  assumes F: "\<And>i. F i = copy_color (d i) i"
    and "i < n" "k < 3"
  shows "color (fold F [0..<n] c) i k = color (d i) i k"
proof (rule fold_establish [where i = i])
  show "i \<in> set [0..<n]" using assms by simp
qed (use assms in \<open>auto simp: color_copy_color\<close>)

lemma color_loop_alpha:
  assumes F: "\<And>i. F i = copy_color (d i) i"
  shows "color (fold F xs c) i 3 = color c i 3"
  by (rule fold_frame) (simp add: color_copy_color F)

lemma color_loop_point:
  assumes F: "\<And>i. F i = copy_color (d i) i"
  shows "point (fold F xs c) = point c"
  by (rule fold_frame) (simp add: F)

lemma color_loop_fit_val:
  assumes F: "\<And>i. F i = copy_color (d i) i"
  shows "fit_val (fold F xs c) = fit_val c"
  by (rule fold_frame) (simp add: F)

lemma vertices_eqI:
  assumes "\<And>j k. j < V \<Longrightarrow> k < 2 \<Longrightarrow> point c i j k = point a i j k"
  shows "vertices c i = vertices a i"
proof -
  have "map (\<lambda>j. [point c i j 0, point c i j 1]) [0..<V]
      = map (\<lambda>j. [point a i j 0, point a i j 1]) [0..<V]"
  proof (rule map_cong [OF refl])
    fix j assume "j \<in> set [0..<V]"
    then have "j < V" by simp
    then show "[point c i j 0, point c i j 1] = [point a i j 0, point a i j 1]"
      using assms [of j 0] assms [of j 1] by simp
  qed
  then show ?thesis by (simp only: vertices_def)
qed

lemma rgb_eqI:
  assumes "\<And>k. k < 3 \<Longrightarrow> color c i k = color a i k"
  shows "rgb c i = rgb a i"
  using assms [of 0] assms [of 1] assms [of 2] by (simp add: rgb_def)

lemma triangle_at_eqI:
  assumes "\<And>j k. j < V \<Longrightarrow> k < 2 \<Longrightarrow> point c i j k = point a i j k"
    and "\<And>k. k < 3 \<Longrightarrow> color c i k = color a i k"
  shows "triangle_at c i = triangle_at a i"
  using vertices_eqI [of c i a, OF assms(1)] rgb_eqI [of c i a, OF assms(2)]
  by (simp add: triangle_at_def)

lemma unat_rand_le: "unat (w :: 31 word) \<le> RAND_MAX"
proof -
  have "unat w < 2 ^ LENGTH(31)" by (rule unsigned_less)
  then show ?thesis by (simp add: RAND_MAX_def)
qed

lemma fst_U_RND: "fst (U_RND s) = real (unat (shd s)) / real RAND_MAX"
  unfolding U_RND_def rand_r_def by simp

lemma U_RND_range: "0 \<le> fst (U_RND s) \<and> fst (U_RND s) \<le> 1"
proof -
  have le: "real (unat (shd s)) \<le> real RAND_MAX"
    using unat_rand_le [of "shd s"] by (simp only: of_nat_le_iff)
  have pos: "0 < real RAND_MAX" by (simp add: RAND_MAX_def)
  have "0 \<le> real (unat (shd s)) / real RAND_MAX"
    by (rule divide_nonneg_nonneg) (simp_all only: of_nat_0_le_iff)
  moreover have "real (unat (shd s)) / real RAND_MAX \<le> 1"
    using le pos by (simp only: divide_le_eq_1_pos)
  ultimately show ?thesis by (simp only: fst_U_RND)
qed

lemma snd_U_RND [simp]: "snd (U_RND s) = stl s"
  by (simp add: U_RND_def rand_r_def)

lemma snd_RND [simp]: "snd (RND s) = stl s"
  by (simp add: RND_def rand_r_def)

lemma fst_cut_index: "fst (cut_index s) = nat \<lceil>fst (U_RND s) * real N\<rceil>"
  by (simp add: cut_index_def case_prod_beta)

lemma cut_index_le: "fst (cut_index s) \<le> N"
proof -
  have "fst (U_RND s) * real N \<le> 1 * real N"
    by (rule mult_right_mono) (use U_RND_range [of s] in simp_all)
  then have "\<lceil>fst (U_RND s) * real N\<rceil> \<le> int N"
    by (simp add: ceiling_le_iff)
  then have "nat \<lceil>fst (U_RND s) * real N\<rceil> \<le> N"
    by (simp only: nat_le_iff)
  then show ?thesis by (simp only: fst_cut_index)
qed

lemma fst_one_point_co:
  "fst (one_point_co a b c s) =
     fold (\<lambda>i. if i < fst (cut_index s) then copy_color a i else copy_color b i) [0..<N]
       (fold (\<lambda>i. fold (\<lambda>j. if i < fst (cut_index s) then copy_vertex a i j
                               else copy_vertex b i j) [0..<V]) [0..<N] c)"
  by (simp add: one_point_co_def case_prod_beta Let_def)

lemma one_point_co_point:
  assumes "i < N" "j < V" "k < 2"
  shows "point (fst (one_point_co a b c s)) i j k =
           point (if i < fst (cut_index s) then a else b) i j k"
  unfolding fst_one_point_co
  by (subst color_loop_point [where d = "\<lambda>i. if i < fst (cut_index s) then a else b"],
      simp, rule vertex_loop_point) (use assms in simp_all)

lemma one_point_co_color:
  assumes "i < N" "k < 3"
  shows "color (fst (one_point_co a b c s)) i k =
           color (if i < fst (cut_index s) then a else b) i k"
  unfolding fst_one_point_co
  by (rule color_loop_color) (use assms in simp_all)

lemma one_point_co_alpha:
  "color (fst (one_point_co a b c s)) i 3 = color c i 3"
  unfolding fst_one_point_co
  by (subst color_loop_alpha [where d = "\<lambda>i. if i < fst (cut_index s) then a else b"],
      simp, subst vertex_loop_color [where d = "\<lambda>i. if i < fst (cut_index s) then a else b"])
    simp_all

lemma one_point_co_seed: "snd (one_point_co a b c s) = stl s"
  by (simp add: one_point_co_def cut_index_def case_prod_beta Let_def)

lemma one_point_co_triangle:
  assumes "i < N"
  shows "triangle_at (fst (one_point_co a b c s)) i =
           triangle_at (if i < fst (cut_index s) then a else b) i"
  by (rule triangle_at_eqI) (use assms in \<open>simp_all only: one_point_co_point one_point_co_color\<close>)

text \<open>
  Claim C5. One-point crossover draws the cut index \<open>p = ceil(u * N)\<close>, which lies in
  \<open>[0, N]\<close>; triangle \<open>i\<close> of the child (its six coordinates and its three colour
  channels) is triangle \<open>i\<close> of parent A when \<open>i < p\<close> and of parent B otherwise. With
  \<open>p = 0\<close> every triangle is B's, with \<open>p = N\<close> every triangle is A's. The alpha
  channel is not copied: it stays what the child had.
\<close>

theorem one_point_co_correct:
  assumes "i < N"
  shows "fst (cut_index s) = nat \<lceil>fst (U_RND s) * real N\<rceil>
    \<and> fst (cut_index s) \<le> N
    \<and> triangle_at (fst (one_point_co a b c s)) i =
        (if i < fst (cut_index s) then triangle_at a i else triangle_at b i)
    \<and> (fst (cut_index s) = 0 \<longrightarrow> triangle_at (fst (one_point_co a b c s)) i = triangle_at b i)
    \<and> (fst (cut_index s) = N \<longrightarrow> triangle_at (fst (one_point_co a b c s)) i = triangle_at a i)
    \<and> color (fst (one_point_co a b c s)) i 3 = color c i 3"
proof (intro conjI impI)
  show "color (fst (one_point_co a b c s)) i 3 = color c i 3"
    by (rule one_point_co_alpha)
  show "fst (cut_index s) = nat \<lceil>fst (U_RND s) * real N\<rceil>"
    by (rule fst_cut_index)
  show "fst (cut_index s) \<le> N"
    by (rule cut_index_le)
  show "triangle_at (fst (one_point_co a b c s)) i =
          (if i < fst (cut_index s) then triangle_at a i else triangle_at b i)"
    by (simp only: one_point_co_triangle [OF assms] if_distrib [of "\<lambda>x. triangle_at x i"])
  show "triangle_at (fst (one_point_co a b c s)) i = triangle_at b i"
    if "fst (cut_index s) = 0"
    using that by (simp only: one_point_co_triangle [OF assms] not_less_zero if_False)
  show "triangle_at (fst (one_point_co a b c s)) i = triangle_at a i"
    if "fst (cut_index s) = N"
    using that assms by (simp only: one_point_co_triangle [OF assms] if_True)
qed

theorem one_point_co_correct_witness:
  "(0::nat) < N
   \<and> fst (cut_index (sconst 0)) = 0
   \<and> triangle_at (fst (one_point_co (solid 0) (solid 1) (solid 0) (sconst 0))) 0
       = triangle_at (solid 1) 0
   \<and> fst (cut_index (sconst 2147483647)) = N
   \<and> triangle_at (fst (one_point_co (solid 0) (solid 1) (solid 0) (sconst 2147483647))) 0
       = triangle_at (solid 0) 0"
proof -
  have n: "(0::nat) < N" by (simp add: N_def)
  have lo: "fst (cut_index (sconst 0)) = 0"
    by (simp add: fst_cut_index fst_U_RND)
  have hi: "fst (cut_index (sconst 2147483647)) = N"
    by (simp add: fst_cut_index fst_U_RND RAND_MAX_def)
  have "triangle_at (fst (one_point_co (solid 0) (solid 1) (solid 0) (sconst 0))) 0
       = triangle_at (solid 1) 0"
    using one_point_co_correct [OF n, of "sconst 0" "solid 0" "solid 1" "solid 0"] lo
    by simp
  moreover
  have "triangle_at (fst (one_point_co (solid 0) (solid 1) (solid 0) (sconst 2147483647))) 0
       = triangle_at (solid 0) 0"
    using one_point_co_correct [OF n, of "sconst 2147483647" "solid 0" "solid 1" "solid 0"] hi
    by blast
  ultimately show ?thesis
    using n lo hi by (intro conjI)
qed

subsection \<open>Uniform crossover\<close>


lemma fst_n_points_step:
  "fst (n_points_step a b i j cs) =
     copy_color (donor a b (snd cs)) i (copy_vertex (donor a b (snd cs)) i j (fst cs))"
  by (simp add: n_points_step_def donor_def case_prod_beta)

lemma snd_n_points_step: "snd (n_points_step a b i j cs) = stl (snd cs)"
  by (simp add: n_points_step_def case_prod_beta)

lemma n_points_inner_seed:
  "snd (fold (n_points_step a b i) [0..<m] cs) = sdrop m (snd cs)"
  by (induction m) (simp_all add: snd_n_points_step)

lemma n_points_inner_other:
  assumes "i' \<noteq> i"
  shows "point (fst (fold (n_points_step a b i) xs cs)) i' = point (fst cs) i'"
    and "color (fst (fold (n_points_step a b i) xs cs)) i' = color (fst cs) i'"
  using assms
  by (induction xs arbitrary: cs)
     (auto simp: fst_n_points_step point_copy_vertex color_copy_color fun_eq_iff)

lemma n_points_inner_alpha:
  "color (fst (fold (n_points_step a b i) xs cs)) i' 3 = color (fst cs) i' 3"
  by (induction xs arbitrary: cs) (simp_all add: fst_n_points_step color_copy_color)

lemma n_points_inner_fit_val:
  "fit_val (fst (fold (n_points_step a b i) xs cs)) = fit_val (fst cs)"
  by (induction xs arbitrary: cs) (simp_all add: fst_n_points_step)

lemma n_points_inner_point:
  assumes "j < m" "k < 2"
  shows "point (fst (fold (n_points_step a b i) [0..<m] cs)) i j k =
           point (donor a b (sdrop j (snd cs))) i j k"
  using assms
proof (induction m)
  case 0
  then show ?case by simp
next
  case (Suc m)
  show ?case
  proof (cases "j = m")
    case True
    then show ?thesis using Suc.prems
      by (simp add: fst_n_points_step point_copy_vertex n_points_inner_seed)
  next
    case False
    then have "j < m" using Suc.prems by simp
    then show ?thesis using Suc.IH Suc.prems False
      by (simp add: fst_n_points_step point_copy_vertex)
  qed
qed

lemma n_points_inner_color:
  assumes "0 < m" "k < 3"
  shows "color (fst (fold (n_points_step a b i) [0..<m] cs)) i k =
           color (donor a b (sdrop (m - 1) (snd cs))) i k"
proof -
  obtain m' where m: "m = Suc m'" using assms by (cases m) simp_all
  show ?thesis using assms
    by (simp add: m fst_n_points_step color_copy_color n_points_inner_seed)
qed

lemma n_points_outer_seed:
  "snd (fold (\<lambda>i. fold (n_points_step a b i) [0..<m]) [0..<n] cs) = sdrop (n * m) (snd cs)"
  by (induction n) (simp_all add: n_points_inner_seed add.commute)

lemma n_points_outer_point:
  assumes "i < n" "j < m" "k < 2"
  shows "point (fst (fold (\<lambda>i. fold (n_points_step a b i) [0..<m]) [0..<n] cs)) i j k =
           point (donor a b (sdrop (i * m + j) (snd cs))) i j k"
  using assms
proof (induction n)
  case 0
  then show ?case by simp
next
  case (Suc n)
  show ?case
  proof (cases "i = n")
    case True
    then show ?thesis using Suc.prems
      by (simp add: n_points_inner_point n_points_outer_seed add.commute)
  next
    case False
    then have "i < n" using Suc.prems by simp
    then show ?thesis using Suc.IH Suc.prems False
      by (simp add: n_points_inner_other)
  qed
qed

lemma n_points_outer_color:
  assumes "i < n" "0 < m" "k < 3"
  shows "color (fst (fold (\<lambda>i. fold (n_points_step a b i) [0..<m]) [0..<n] cs)) i k =
           color (donor a b (sdrop (i * m + (m - 1)) (snd cs))) i k"
  using assms
proof (induction n)
  case 0
  then show ?case by simp
next
  case (Suc n)
  show ?case
  proof (cases "i = n")
    case True
    then show ?thesis using Suc.prems
      by (simp add: n_points_inner_color n_points_outer_seed add.commute)
  next
    case False
    then have "i < n" using Suc.prems by simp
    then show ?thesis using Suc.IH Suc.prems False
      by (simp add: n_points_inner_other)
  qed
qed

lemma n_points_outer_alpha:
  "color (fst (fold (\<lambda>i. fold (n_points_step a b i) ys) xs cs)) i' 3 = color (fst cs) i' 3"
  by (induction xs arbitrary: cs) (simp_all add: n_points_inner_alpha)

lemma n_points_outer_fit_val:
  "fit_val (fst (fold (\<lambda>i. fold (n_points_step a b i) ys) xs cs)) = fit_val (fst cs)"
  by (induction xs arbitrary: cs) (simp_all add: n_points_inner_fit_val)

lemma n_points_co_point:
  assumes "i < N" "j < V" "k < 2"
  shows "point (fst (n_points_co a b c s)) i j k = point (donor a b (sdrop (i * V + j) s)) i j k"
  unfolding n_points_co_def using n_points_outer_point [OF assms, of a b "(c, s)"] by simp

lemma n_points_co_color:
  assumes "i < N" "k < 3"
  shows "color (fst (n_points_co a b c s)) i k = color (donor a b (sdrop (i * V + 2) s)) i k"
  unfolding n_points_co_def
  using n_points_outer_color [of i N V k a b "(c, s)"] assms by (simp add: V_def)

lemma n_points_co_alpha: "color (fst (n_points_co a b c s)) i 3 = color c i 3"
  unfolding n_points_co_def by (simp add: n_points_outer_alpha)

lemma n_points_co_fit_val: "fit_val (fst (n_points_co a b c s)) = fit_val c"
  unfolding n_points_co_def by (simp add: n_points_outer_fit_val)

lemma n_points_co_seed: "snd (n_points_co a b c s) = sdrop (N * V) s"
  unfolding n_points_co_def by (simp add: n_points_outer_seed)

lemma donor_same [simp]: "donor a a s = a"
  by (simp add: donor_def)

lemma one_point_co_fit_val: "fit_val (fst (one_point_co a b c s)) = fit_val c"
  unfolding fst_one_point_co
  by (subst color_loop_fit_val [where d = "\<lambda>i. if i < fst (cut_index s) then a else b"],
      simp, subst vertex_loop_fit_val [where d = "\<lambda>i. if i < fst (cut_index s) then a else b"])
    simp_all

text \<open>
  Claim C9. When both parents are the same genome A, the child of either crossover
  operator has, at every index below N, A's triangle (six coordinates and three colour
  channels), whatever the cut index and the coins drawn.
\<close>

theorem self_crossover_copy:
  assumes "i < N"
  shows "triangle_at (fst (one_point_co a a c s)) i = triangle_at a i
       \<and> triangle_at (fst (n_points_co a a c s')) i = triangle_at a i"
proof
  show "triangle_at (fst (one_point_co a a c s)) i = triangle_at a i"
    using one_point_co_triangle [OF assms, of a a c s] by simp
  show "triangle_at (fst (n_points_co a a c s')) i = triangle_at a i"
    by (rule triangle_at_eqI) (use assms in \<open>simp_all add: n_points_co_point n_points_co_color\<close>)
qed

theorem self_crossover_copy_witness:
  "(0::nat) < N
   \<and> triangle_at (fst (one_point_co (solid 1) (solid 1) (solid 0) (sconst 0))) 0
       = triangle_at (solid 1) 0
   \<and> triangle_at (fst (n_points_co (solid 1) (solid 1) (solid 0) (sconst 0))) 0
       = triangle_at (solid 1) 0"
proof -
  have n: "(0::nat) < N" by (simp add: N_def)
  show ?thesis
    using n self_crossover_copy [OF n, of "solid 1" "solid 0" "sconst 0" "sconst 0"] by simp
qed

text \<open>
  Claim C1: every triangle of the child of uniform crossover is, as a whole, the triangle
  of one parent. \<^verbatim>\<open>n_points_co\<close> does not do that. It draws its coin once for each
  vertex, and copies the colour with each vertex: on the coins "A, B, B" triangle 0 of
  the child has the first vertex of parent A and the other two vertices, and the colour,
  of parent B; it is the triangle of neither parent.
\<close>

theorem n_points_co_mixes_parents:
  "triangle_at (fst (n_points_co (solid 0) (solid 1) (solid 0) (0 ## sconst 2147483647))) 0
     = ([Finite 0, Finite 0, Finite 1, Finite 1, Finite 1, Finite 1],
        [Finite 1, Finite 1, Finite 1])
   \<and> triangle_at (solid 0) 0
     = ([Finite 0, Finite 0, Finite 0, Finite 0, Finite 0, Finite 0],
        [Finite 0, Finite 0, Finite 0])
   \<and> triangle_at (solid 1) 0
     = ([Finite 1, Finite 1, Finite 1, Finite 1, Finite 1, Finite 1],
        [Finite 1, Finite 1, Finite 1])"
proof -
  let ?s = "0 ## sconst (2147483647 :: 31 word)"
  let ?c = "fst (n_points_co (solid 0) (solid 1) (solid 0) ?s)"
  have n: "(0::nat) < N" by (simp add: N_def)
  have v: "[0..<V] = [0, 1, 2]" by (simp add: V_def upt_rec)
  have d0: "donor (solid 0) (solid 1) ?s = solid 0"
    by (simp add: donor_def fst_U_RND)
  have d1: "donor (solid 0) (solid 1) (sconst 2147483647) = solid 1"
    by (simp add: donor_def fst_U_RND RAND_MAX_def)
  have p0: "point ?c 0 0 k = Finite 0" if "k < 2" for k
    using n_points_co_point [OF n, of 0 k "solid 0" "solid 1" "solid 0" ?s] that
    by (simp add: V_def d0, simp add: solid_def)
  have p1: "point ?c 0 (Suc 0) k = Finite 1" if "k < 2" for k
    using n_points_co_point [OF n, of "Suc 0" k "solid 0" "solid 1" "solid 0" ?s] that
    by (simp add: V_def d1, simp add: solid_def)
  have p2: "point ?c 0 2 k = Finite 1" if "k < 2" for k
    using n_points_co_point [OF n, of 2 k "solid 0" "solid 1" "solid 0" ?s] that
    by (simp add: V_def d1 numeral_2_eq_2, simp add: solid_def)
  have c: "color ?c 0 k = Finite 1" if "k < 3" for k
    using n_points_co_color [OF n, of k "solid 0" "solid 1" "solid 0" ?s] that
    by (simp add: V_def d1 numeral_2_eq_2, simp add: solid_def)
  have t: "triangle_at ?c 0
     = ([Finite 0, Finite 0, Finite 1, Finite 1, Finite 1, Finite 1],
        [Finite 1, Finite 1, Finite 1])"
    by (simp add: triangle_at_def vertices_def rgb_def v p0 p1 p2 c)
  have a: "triangle_at (solid 0) 0
     = ([Finite 0, Finite 0, Finite 0, Finite 0, Finite 0, Finite 0],
        [Finite 0, Finite 0, Finite 0])"
    by (simp add: triangle_at_def vertices_def rgb_def v solid_def)
  have b: "triangle_at (solid 1) 0
     = ([Finite 1, Finite 1, Finite 1, Finite 1, Finite 1, Finite 1],
        [Finite 1, Finite 1, Finite 1])"
    by (simp add: triangle_at_def vertices_def rgb_def v solid_def)
  show ?thesis
    by (rule conjI [OF t conjI [OF a b]])
qed

subsection \<open>The random draws\<close>


lemma fst_RND: "fst (RND s) = 2 * real (unat (shd s)) / real RAND_MAX - 1"
  unfolding RND_def rand_r_def by simp

lemma RND_as_quotient:
  "fst (RND s) = real_of_int (2 * int (unat (shd s)) - int RAND_MAX) / real RAND_MAX"
proof -
  have "0 < real RAND_MAX" by (simp add: RAND_MAX_def)
  then show ?thesis
    unfolding fst_RND by (simp add: field_simps)
qed

lemma twice_not_RAND_MAX: "2 * int n - int RAND_MAX \<noteq> 0"
  unfolding RAND_MAX_def by presburger

lemma RND_nonzero: "fst (RND s) \<noteq> 0"
proof -
  have "0 < real RAND_MAX" by (simp add: RAND_MAX_def)
  moreover have "real_of_int (2 * int (unat (shd s)) - int RAND_MAX) \<noteq> 0"
    using twice_not_RAND_MAX [of "unat (shd s)"] by (simp only: of_int_eq_0_iff) simp
  ultimately show ?thesis
    unfolding RND_as_quotient by simp
qed

lemma RND_range: "- 1 \<le> fst (RND s) \<and> fst (RND s) \<le> 1"
proof -
  have "fst (RND s) = 2 * fst (U_RND s) - 1"
    by (simp add: fst_RND fst_U_RND)
  then show ?thesis using U_RND_range [of s] by linarith
qed

lemma fst_disturb_intensity: "fst (disturb_intensity s) = 500 * fst (RND s)"
  by (simp add: disturb_intensity_def case_prod_beta)

lemma ddiv_nonzero_Finite: "d \<noteq> 0 \<Longrightarrow> \<exists>q. ddiv r (Finite d) = Finite q"
  by simp

text \<open>
  Claim C10, amended. The argument of \<^verbatim>\<open>mutate_disturb\<close> is 500 times a draw of
  \<^verbatim>\<open>RND\<close>, a value of \<open>[-1, 1]\<close>, and divides every perturbation, with no guard. It is
  zero for no stream: a draw is \<open>2 r / RAND_MAX - 1\<close> for an integer \<open>r\<close>, and
  \<^verbatim>\<open>RAND_MAX\<close> is odd. So the two divisions of the mutation, of a draw and of ten times
  a draw, give a finite value and never divide by zero. The argument is negative for some
  streams, and for some it is less than a millionth away from zero.
\<close>

theorem disturb_intensity_never_zero:
  "fst (disturb_intensity s) = 500 * fst (RND s)
   \<and> - 1 \<le> fst (RND s) \<and> fst (RND s) \<le> 1
   \<and> fst (disturb_intensity s) \<noteq> 0
   \<and> (\<exists>q. ddiv (fst (RND t)) (Finite (fst (disturb_intensity s))) = Finite q)
   \<and> (\<exists>q. ddiv (10 * fst (RND t)) (Finite (fst (disturb_intensity s))) = Finite q)
   \<and> fst (disturb_intensity (sconst 0)) = - 500
   \<and> \<bar>fst (disturb_intensity (sconst 1073741824))\<bar> < 1 / 1000000"
proof -
  have nz: "fst (disturb_intensity s) \<noteq> 0"
    using RND_nonzero [of s] by (simp add: fst_disturb_intensity)
  have neg: "fst (disturb_intensity (sconst 0)) = - 500"
    by (simp add: fst_disturb_intensity fst_RND)
  have small: "\<bar>fst (disturb_intensity (sconst 1073741824))\<bar> < 1 / 1000000"
    by (simp add: fst_disturb_intensity fst_RND RAND_MAX_def)
  show ?thesis
    using nz neg small RND_range [of s] ddiv_nonzero_Finite [OF nz]
    by (simp add: fst_disturb_intensity)
qed

text \<open>The claim as stated, an intensity that is exactly zero for some stream, fails.\<close>

theorem disturb_intensity_zero_counterexample:
  "\<not> (\<exists>s. fst (disturb_intensity s) = 0)"
  using RND_nonzero by (simp add: fst_disturb_intensity)

subsection \<open>Mutation stays in the unit interval\<close>

lemma in_unit_U_RND: "in_unit (Finite (fst (U_RND s)))"
  using U_RND_range [of s] by (simp add: in_unit_def)

lemma in_unit_not_out: "in_unit x \<Longrightarrow> \<not> out_of_unit x"
  by (cases x) (simp_all add: in_unit_def out_of_unit_def dgt_def)

lemma in_unit_not_NaN: "in_unit x \<Longrightarrow> x \<noteq> NaN"
  by (cases x) (simp_all add: in_unit_def)

lemma settled_in_unit: "x \<noteq> NaN \<Longrightarrow> \<not> out_of_unit x \<Longrightarrow> in_unit x"
  by (cases x) (simp_all add: in_unit_def out_of_unit_def dgt_def)

lemma ddiv_nonzero_not_NaN: "r \<noteq> 0 \<Longrightarrow> d \<noteq> NaN \<Longrightarrow> ddiv r d \<noteq> NaN"
  by (cases d) simp_all

lemma dadd_in_unit_not_NaN: "in_unit x \<Longrightarrow> y \<noteq> NaN \<Longrightarrow> dadd x y \<noteq> NaN"
  by (cases x; cases y) (simp_all add: in_unit_def)

lemma perturbed_not_NaN:
  assumes "in_unit x" "d \<noteq> NaN"
  shows "dadd x (ddiv (fst (RND s)) d) \<noteq> NaN"
    and "dadd x (ddiv (10 * fst (RND s)) d) \<noteq> NaN"
  using assms RND_nonzero [of s]
  by (simp_all add: dadd_in_unit_not_NaN ddiv_nonzero_not_NaN)

text \<open>The primitives of the mutations, read through \<open>fst\<close> and \<open>snd\<close>.\<close>

lemma point_redraw_point:
  "point (fst (redraw_point j k l cs)) j' k' l' =
     (if j' = j \<and> k' = k \<and> l' = l \<and> out_of_unit (point (fst cs) j k l)
      then Finite (fst (U_RND (snd cs))) else point (fst cs) j' k' l')"
  by (simp add: redraw_point_def case_prod_beta)

lemma color_redraw_point [simp]: "color (fst (redraw_point j k l cs)) = color (fst cs)"
  by (simp add: redraw_point_def case_prod_beta)

lemma fit_val_redraw_point [simp]: "fit_val (fst (redraw_point j k l cs)) = fit_val (fst cs)"
  by (simp add: redraw_point_def case_prod_beta)

lemma snd_redraw_point:
  "snd (redraw_point j k l cs) =
     (if out_of_unit (point (fst cs) j k l) then stl (snd cs) else snd cs)"
  by (simp add: redraw_point_def case_prod_beta)

lemma color_redraw_color:
  "color (fst (redraw_color j l cs)) j' l' =
     (if j' = j \<and> l' = l \<and> out_of_unit (color (fst cs) j l)
      then Finite (fst (U_RND (snd cs))) else color (fst cs) j' l')"
  by (simp add: redraw_color_def case_prod_beta)

lemma point_redraw_color [simp]: "point (fst (redraw_color j l cs)) = point (fst cs)"
  by (simp add: redraw_color_def case_prod_beta)

lemma fit_val_redraw_color [simp]: "fit_val (fst (redraw_color j l cs)) = fit_val (fst cs)"
  by (simp add: redraw_color_def case_prod_beta)

lemma snd_redraw_color:
  "snd (redraw_color j l cs) =
     (if out_of_unit (color (fst cs) j l) then stl (snd cs) else snd cs)"
  by (simp add: redraw_color_def case_prod_beta)

lemma point_add_point:
  "point (fst (add_point d j k l cs)) j' k' l' =
     (if j' = j \<and> k' = k \<and> l' = l
      then dadd (point (fst cs) j k l) (ddiv (fst (RND (snd cs))) d)
      else point (fst cs) j' k' l')"
  by (simp add: add_point_def case_prod_beta)

lemma color_add_point [simp]: "color (fst (add_point d j k l cs)) = color (fst cs)"
  by (simp add: add_point_def case_prod_beta)

lemma fit_val_add_point [simp]: "fit_val (fst (add_point d j k l cs)) = fit_val (fst cs)"
  by (simp add: add_point_def case_prod_beta)

lemma snd_add_point [simp]: "snd (add_point d j k l cs) = stl (snd cs)"
  by (simp add: add_point_def case_prod_beta)

lemma color_add_color:
  "color (fst (add_color d j l cs)) j' l' =
     (if j' = j \<and> l' = l
      then dadd (color (fst cs) j l) (ddiv (10 * fst (RND (snd cs))) d)
      else color (fst cs) j' l')"
  by (simp add: add_color_def case_prod_beta)

lemma point_add_color [simp]: "point (fst (add_color d j l cs)) = point (fst cs)"
  by (simp add: add_color_def case_prod_beta)

lemma fit_val_add_color [simp]: "fit_val (fst (add_color d j l cs)) = fit_val (fst cs)"
  by (simp add: add_color_def case_prod_beta)

lemma snd_add_color [simp]: "snd (add_color d j l cs) = stl (snd cs)"
  by (simp add: add_color_def case_prod_beta)

text \<open>The perturbing blocks.\<close>

lemma point_perturb_vertex_other:
  "\<not> (j' = j \<and> k' = k \<and> l' < 2) \<Longrightarrow>
     point (fst (perturb_vertex d j k cs)) j' k' l' = point (fst cs) j' k' l'"
  by (auto simp: perturb_vertex_def case_prod_beta point_add_point)

lemma color_perturb_vertex [simp]: "color (fst (perturb_vertex d j k cs)) = color (fst cs)"
  by (simp add: perturb_vertex_def case_prod_beta)

lemma fit_val_perturb_vertex [simp]: "fit_val (fst (perturb_vertex d j k cs)) = fit_val (fst cs)"
  by (simp add: perturb_vertex_def case_prod_beta)

lemma point_perturb_vertex_not_NaN:
  assumes "in_unit (point (fst cs) j' k' l')" "d \<noteq> NaN"
  shows "point (fst (perturb_vertex d j k cs)) j' k' l' \<noteq> NaN"
  using assms
  by (auto simp: perturb_vertex_def case_prod_beta point_add_point perturbed_not_NaN
      in_unit_not_NaN)

lemma color_perturb_color_other:
  "\<not> (j' = j \<and> l' < 3) \<Longrightarrow>
     color (fst (perturb_color d j cs)) j' l' = color (fst cs) j' l'"
  by (auto simp: perturb_color_def case_prod_beta color_add_color)

lemma point_perturb_color [simp]: "point (fst (perturb_color d j cs)) = point (fst cs)"
  by (simp add: perturb_color_def case_prod_beta)

lemma fit_val_perturb_color [simp]: "fit_val (fst (perturb_color d j cs)) = fit_val (fst cs)"
  by (simp add: perturb_color_def case_prod_beta)

lemma color_perturb_color_not_NaN:
  assumes "in_unit (color (fst cs) j' l')" "d \<noteq> NaN"
  shows "color (fst (perturb_color d j cs)) j' l' \<noteq> NaN"
  using assms
  by (auto simp: perturb_color_def case_prod_beta color_add_color perturbed_not_NaN
      in_unit_not_NaN)

text \<open>A range test leaves a value of the unit interval, unless the value was NaN.\<close>

lemma redraw_point_in_unit:
  assumes "point (fst cs) j' k' l' \<noteq> NaN"
    and "in_unit (point (fst cs) j' k' l') \<or> (j' = j \<and> k' = k \<and> l' = l)"
  shows "in_unit (point (fst (redraw_point j k l cs)) j' k' l')"
  using assms by (auto simp: point_redraw_point in_unit_U_RND settled_in_unit)

lemma redraw_point_not_NaN:
  assumes "point (fst cs) j' k' l' \<noteq> NaN"
  shows "point (fst (redraw_point j k l cs)) j' k' l' \<noteq> NaN"
  using assms by (simp add: point_redraw_point)

lemma redraw_color_in_unit:
  assumes "color (fst cs) j' l' \<noteq> NaN"
    and "in_unit (color (fst cs) j' l') \<or> (j' = j \<and> l' = l)"
  shows "in_unit (color (fst (redraw_color j l cs)) j' l')"
  using assms by (auto simp: color_redraw_color in_unit_U_RND settled_in_unit)

lemma redraw_color_not_NaN:
  assumes "color (fst cs) j' l' \<noteq> NaN"
  shows "color (fst (redraw_color j l cs)) j' l' \<noteq> NaN"
  using assms by (simp add: color_redraw_color)

lemma disturb_vertex_in_unit:
  assumes "in_unit (point (fst cs) j' k' l')" "d \<noteq> NaN" "l' < 2"
  shows "in_unit (point (fst (disturb_vertex d j k cs)) j' k' l')"
proof -
  let ?p = "perturb_vertex d j k cs"
  have nn: "point (fst ?p) j' k' l' \<noteq> NaN"
    using assms by (simp add: point_perturb_vertex_not_NaN)
  show ?thesis
  proof (cases "j' = j \<and> k' = k")
    case True
    from assms(3) have "l' = 0 \<or> l' = 1" by auto
    then show ?thesis
    proof
      assume l: "l' = 0"
      have "in_unit (point (fst (redraw_point j k 0 ?p)) j' k' l')"
        using nn True l by (intro redraw_point_in_unit) simp_all
      then show ?thesis
        unfolding disturb_vertex_def
        by (intro redraw_point_in_unit) (simp_all add: in_unit_not_NaN)
    next
      assume l: "l' = 1"
      have "point (fst (redraw_point j k 0 ?p)) j' k' l' \<noteq> NaN"
        using nn by (rule redraw_point_not_NaN)
      then show ?thesis
        unfolding disturb_vertex_def using True l
        by (intro redraw_point_in_unit) simp_all
    qed
  next
    case False
    then have "point (fst ?p) j' k' l' = point (fst cs) j' k' l'"
      by (intro point_perturb_vertex_other) auto
    then have "in_unit (point (fst ?p) j' k' l')" using assms by simp
    then have "in_unit (point (fst (redraw_point j k 0 ?p)) j' k' l')"
      by (intro redraw_point_in_unit) (simp_all add: in_unit_not_NaN)
    then show ?thesis
      unfolding disturb_vertex_def
      by (intro redraw_point_in_unit) (simp_all add: in_unit_not_NaN)
  qed
qed

lemma color_disturb_vertex [simp]: "color (fst (disturb_vertex d j k cs)) = color (fst cs)"
  by (simp add: disturb_vertex_def)

lemma fit_val_disturb_vertex [simp]: "fit_val (fst (disturb_vertex d j k cs)) = fit_val (fst cs)"
  by (simp add: disturb_vertex_def)

lemma point_disturb_color [simp]: "point (fst (disturb_color d j cs)) = point (fst cs)"
  by (simp add: disturb_color_def)

lemma fit_val_disturb_color [simp]: "fit_val (fst (disturb_color d j cs)) = fit_val (fst cs)"
  by (simp add: disturb_color_def)

lemma disturb_color_in_unit:
  assumes "in_unit (color (fst cs) j' l')" "d \<noteq> NaN" "l' < 3"
  shows "in_unit (color (fst (disturb_color d j cs)) j' l')"
proof -
  let ?p = "perturb_color d j cs"
  let ?r0 = "redraw_color j 0 ?p"
  let ?r1 = "redraw_color j 1 ?r0"
  have nn: "color (fst ?p) j' l' \<noteq> NaN"
    using assms by (simp add: color_perturb_color_not_NaN)
  show ?thesis
  proof (cases "j' = j")
    case True
    from assms(3) have "l' = 0 \<or> l' = 1 \<or> l' = 2" by auto
    then show ?thesis
    proof (elim disjE)
      assume l: "l' = 0"
      have "in_unit (color (fst ?r0) j' l')"
        using nn True l by (intro redraw_color_in_unit) simp_all
      then have "in_unit (color (fst ?r1) j' l')"
        by (intro redraw_color_in_unit) (simp_all add: in_unit_not_NaN)
      then show ?thesis
        unfolding disturb_color_def
        by (intro redraw_color_in_unit) (simp_all add: in_unit_not_NaN)
    next
      assume l: "l' = 1"
      have "color (fst ?r0) j' l' \<noteq> NaN"
        using nn by (rule redraw_color_not_NaN)
      then have "in_unit (color (fst ?r1) j' l')"
        using True l by (intro redraw_color_in_unit) simp_all
      then show ?thesis
        unfolding disturb_color_def
        by (intro redraw_color_in_unit) (simp_all add: in_unit_not_NaN)
    next
      assume l: "l' = 2"
      have "color (fst ?r0) j' l' \<noteq> NaN"
        using nn by (rule redraw_color_not_NaN)
      then have "color (fst ?r1) j' l' \<noteq> NaN"
        by (rule redraw_color_not_NaN)
      then show ?thesis
        unfolding disturb_color_def using True l
        by (intro redraw_color_in_unit) simp_all
    qed
  next
    case False
    then have "color (fst ?p) j' l' = color (fst cs) j' l'"
      by (intro color_perturb_color_other) auto
    then have "in_unit (color (fst ?p) j' l')" using assms by simp
    then have "in_unit (color (fst ?r0) j' l')"
      by (intro redraw_color_in_unit) (simp_all add: in_unit_not_NaN)
    then have "in_unit (color (fst ?r1) j' l')"
      by (intro redraw_color_in_unit) (simp_all add: in_unit_not_NaN)
    then show ?thesis
      unfolding disturb_color_def
      by (intro redraw_color_in_unit) (simp_all add: in_unit_not_NaN)
  qed
qed

lemma disturb_triangle_point_in_unit:
  assumes "in_unit (point (fst cs) j' k' l')" "d \<noteq> NaN" "l' < 2"
  shows "in_unit (point (fst (disturb_triangle d j cs)) j' k' l')"
proof -
  have "in_unit (point (fst (fold (disturb_vertex d j) [0..<V] cs)) j' k' l')"
    by (rule fold_invariant [where P = "\<lambda>cs. in_unit (point (fst cs) j' k' l')"])
       (use assms in \<open>simp_all add: disturb_vertex_in_unit\<close>)
  then show ?thesis
    unfolding disturb_triangle_def by simp
qed

lemma disturb_triangle_color_in_unit:
  assumes "in_unit (color (fst cs) j' l')" "d \<noteq> NaN" "l' < 3"
  shows "in_unit (color (fst (disturb_triangle d j cs)) j' l')"
proof -
  have "color (fst (fold (disturb_vertex d j) [0..<V] cs)) = color (fst cs)"
    by (rule fold_frame [where g = "\<lambda>cs. color (fst cs)"]) simp
  then show ?thesis
    unfolding disturb_triangle_def using assms by (simp add: disturb_color_in_unit)
qed

lemma mutate_disturb_point_in_unit:
  assumes "in_unit (point c j' k' l')" "d \<noteq> NaN" "l' < 2"
  shows "in_unit (point (fst (mutate_disturb d c s)) j' k' l')"
  unfolding mutate_disturb_def
  by (rule fold_invariant [where P = "\<lambda>cs. in_unit (point (fst cs) j' k' l')"])
     (use assms in \<open>simp_all add: disturb_triangle_point_in_unit\<close>)

lemma mutate_disturb_color_in_unit:
  assumes "in_unit (color c j' l')" "d \<noteq> NaN" "l' < 3"
  shows "in_unit (color (fst (mutate_disturb d c s)) j' l')"
  unfolding mutate_disturb_def
  by (rule fold_invariant [where P = "\<lambda>cs. in_unit (color (fst cs) j' l')"])
     (use assms in \<open>simp_all add: disturb_triangle_color_in_unit\<close>)

lemma mutate_disturb_bounded:
  assumes "bounded c" "d \<noteq> NaN"
  shows "bounded (fst (mutate_disturb d c s))"
  using assms unfolding bounded_def
  by (simp add: mutate_disturb_point_in_unit mutate_disturb_color_in_unit)

lemma point_change_coord:
  "point (fst (change_coord i j k cs)) i' j' k' =
     (if i' = i \<and> j' = j \<and> k' = k \<and> fst (U_RND (snd cs)) > 0.5
      then Finite (fst (U_RND (stl (snd cs)))) else point (fst cs) i' j' k')"
  by (simp add: change_coord_def case_prod_beta)

lemma color_change_coord [simp]: "color (fst (change_coord i j k cs)) = color (fst cs)"
  by (simp add: change_coord_def case_prod_beta)

lemma fit_val_change_coord [simp]: "fit_val (fst (change_coord i j k cs)) = fit_val (fst cs)"
  by (simp add: change_coord_def case_prod_beta)

lemma color_change_color:
  "color (fst (change_color i cs)) i' k' =
     (if i' = i \<and> k' < 3 \<and> fst (U_RND (snd cs)) > 0.5
      then Finite (fst (U_RND (sdrop (Suc k') (snd cs)))) else color (fst cs) i' k')"
  by (auto simp: change_color_def case_prod_beta numeral_3_eq_3 numeral_2_eq_2 less_Suc_eq)

lemma point_change_color [simp]: "point (fst (change_color i cs)) = point (fst cs)"
  by (simp add: change_color_def case_prod_beta)

lemma fit_val_change_color [simp]: "fit_val (fst (change_color i cs)) = fit_val (fst cs)"
  by (simp add: change_color_def case_prod_beta)

lemma change_coord_in_unit:
  "in_unit (point (fst cs) i' j' k') \<Longrightarrow> in_unit (point (fst (change_coord i j k cs)) i' j' k')"
  by (simp add: point_change_coord in_unit_U_RND)

lemma change_color_in_unit:
  "in_unit (color (fst cs) i' k') \<Longrightarrow> in_unit (color (fst (change_color i cs)) i' k')"
  by (simp add: color_change_color in_unit_U_RND)

lemma change_triangle_point_in_unit:
  assumes "in_unit (point (fst cs) i' j' k')"
  shows "in_unit (point (fst (change_triangle i cs)) i' j' k')"
proof -
  have "in_unit (point (fst (fold (\<lambda>j cs. change_coord i j 1 (change_coord i j 0 cs)) [0..<V] cs))
          i' j' k')"
    by (rule fold_invariant [where P = "\<lambda>cs. in_unit (point (fst cs) i' j' k')"])
       (use assms in \<open>simp_all add: change_coord_in_unit\<close>)
  then show ?thesis
    unfolding change_triangle_def by simp
qed

lemma change_triangle_color_in_unit:
  assumes "in_unit (color (fst cs) i' k')"
  shows "in_unit (color (fst (change_triangle i cs)) i' k')"
proof -
  have "color (fst (fold (\<lambda>j cs. change_coord i j 1 (change_coord i j 0 cs)) [0..<V] cs))
          = color (fst cs)"
    by (rule fold_frame [where g = "\<lambda>cs. color (fst cs)"]) simp
  then show ?thesis
    unfolding change_triangle_def using assms by (simp add: change_color_in_unit)
qed

lemma mutate_change_bounded:
  assumes "bounded c"
  shows "bounded (fst (mutate_change c s))"
proof -
  have p: "in_unit (point (fst (mutate_change c s)) i j k)" if "in_unit (point c i j k)" for i j k
    unfolding mutate_change_def
    by (rule fold_invariant [where P = "\<lambda>cs. in_unit (point (fst cs) i j k)"])
       (use that in \<open>simp_all add: change_triangle_point_in_unit\<close>)
  have q: "in_unit (color (fst (mutate_change c s)) i k)" if "in_unit (color c i k)" for i k
    unfolding mutate_change_def
    by (rule fold_invariant [where P = "\<lambda>cs. in_unit (color (fst cs) i k)"])
       (use that in \<open>simp_all add: change_triangle_color_in_unit\<close>)
  show ?thesis
    using assms unfolding bounded_def by (simp add: p q)
qed

lemma bounded_solid: "0 \<le> v \<Longrightarrow> v \<le> 1 \<Longrightarrow> bounded (solid v)"
  by (simp add: bounded_def solid_def in_unit_def)

text \<open>
  Claim C2, amended. When every coordinate and every colour channel of every triangle of a
  genome lies in \<open>[0, 1]\<close>, the same holds after disturb mutation with an intensity that
  is not NaN (every finite intensity, zero and the negative ones too, and both
  infinities), and after reset mutation.
\<close>

theorem mutation_bounded:
  assumes "bounded c" and "disturb \<noteq> NaN"
  shows "bounded (fst (mutate_disturb disturb c s)) \<and> bounded (fst (mutate_change c s'))"
  using assms by (simp add: mutate_disturb_bounded mutate_change_bounded)

theorem mutation_bounded_witness:
  "bounded (solid 1)
   \<and> bounded (fst (mutate_disturb (Finite 0) (solid 1) (sconst 0)))
   \<and> bounded (fst (mutate_disturb (Finite (- 500)) (solid 1) example_draws))
   \<and> bounded (fst (mutate_disturb PInf (solid 1) (sconst 0)))
   \<and> bounded (fst (mutate_change (solid 1) (sconst 0)))"
proof -
  have b: "bounded (solid 1)" by (simp add: bounded_solid)
  show ?thesis
    using b mutation_bounded [OF b, of "Finite 0" "sconst 0" "sconst 0"]
      mutation_bounded [OF b, of "Finite (- 500)" example_draws "sconst 0"]
      mutation_bounded [OF b, of PInf "sconst 0" "sconst 0"]
    by simp
qed

subsection \<open>What disturb mutation stores\<close>

lemma point_disturb_vertex_other:
  "\<not> (j' = j \<and> k' = k \<and> l' < 2) \<Longrightarrow>
     point (fst (disturb_vertex d j k cs)) j' k' l' = point (fst cs) j' k' l'"
  by (auto simp: disturb_vertex_def point_redraw_point point_perturb_vertex_other)

lemma color_disturb_color_other:
  "\<not> (j' = j \<and> l' < 3) \<Longrightarrow>
     color (fst (disturb_color d j cs)) j' l' = color (fst cs) j' l'"
  by (auto simp: disturb_color_def color_redraw_color color_perturb_color_other)

lemma color_vertex_loop [simp]:
  "color (fst (fold (disturb_vertex d j) xs cs)) = color (fst cs)"
  by (rule fold_frame [where g = "\<lambda>cs. color (fst cs)"]) simp

lemma fit_val_vertex_loop [simp]:
  "fit_val (fst (fold (disturb_vertex d j) xs cs)) = fit_val (fst cs)"
  by (rule fold_frame [where g = "\<lambda>cs. fit_val (fst cs)"]) simp

lemma point_vertex_loop_other:
  assumes "j' \<noteq> j \<or> k' \<notin> set xs"
  shows "point (fst (fold (disturb_vertex d j) xs cs)) j' k' l' = point (fst cs) j' k' l'"
proof (rule fold_frame [where g = "\<lambda>cs. point (fst cs) j' k' l'"])
  fix i and st :: "Chromosome \<times> rng"
  assume "i \<in> set xs"
  then have "\<not> (j' = j \<and> k' = i \<and> l' < 2)" using assms by auto
  then show "point (fst (disturb_vertex d j i st)) j' k' l' = point (fst st) j' k' l'"
    by (rule point_disturb_vertex_other)
qed

lemma point_disturb_triangle_other:
  "j' \<noteq> j \<Longrightarrow> point (fst (disturb_triangle d j cs)) j' k' l' = point (fst cs) j' k' l'"
  by (simp add: disturb_triangle_def point_vertex_loop_other)

lemma color_disturb_triangle_other:
  "\<not> (j' = j \<and> l' < 3) \<Longrightarrow>
     color (fst (disturb_triangle d j cs)) j' l' = color (fst cs) j' l'"
  by (simp add: disturb_triangle_def color_disturb_color_other)

lemma fit_val_disturb_triangle [simp]:
  "fit_val (fst (disturb_triangle d j cs)) = fit_val (fst cs)"
  by (simp add: disturb_triangle_def)

lemma upt_split: "j < n \<Longrightarrow> [0..<n] = [0..<j] @ j # [Suc j..<n]"
  using upt_add_eq_append [of 0 j "n - j"] by (simp add: upt_conv_Cons)

lemma mutate_disturb_split:
  assumes "j < N"
  shows "mutate_disturb d c s =
           fold (disturb_triangle d) [Suc j..<N]
             (disturb_triangle d j (fold (disturb_triangle d) [0..<j] (c, s)))"
  unfolding mutate_disturb_def by (subst upt_split [OF assms]) simp

lemma disturb_triangle_split:
  assumes "k < V"
  shows "disturb_triangle d j cs =
           disturb_color d j (fold (disturb_vertex d j) [Suc k..<V]
             (disturb_vertex d j k (fold (disturb_vertex d j) [0..<k] cs)))"
  unfolding disturb_triangle_def by (subst upt_split [OF assms]) simp

lemma mutate_disturb_point_at:
  assumes "j < N" "k < V"
  shows "point (fst (mutate_disturb d c s)) j k l =
           point (fst (disturb_vertex d j k (before_vertex d c s j k))) j k l"
proof -
  let ?b = "fold (disturb_triangle d) [0..<j] (c, s)"
  have "point (fst (mutate_disturb d c s)) j k l = point (fst (disturb_triangle d j ?b)) j k l"
    unfolding mutate_disturb_split [OF assms(1)]
    by (rule fold_frame [where g = "\<lambda>cs. point (fst cs) j k l"])
       (simp add: point_disturb_triangle_other)
  also have "\<dots> = point (fst (disturb_vertex d j k (fold (disturb_vertex d j) [0..<k] ?b))) j k l"
    unfolding disturb_triangle_split [OF assms(2)]
    by (simp add: point_vertex_loop_other)
  finally show ?thesis by (simp add: before_vertex_def)
qed

lemma mutate_disturb_color_at:
  assumes "j < N" "l < 3"
  shows "color (fst (mutate_disturb d c s)) j l =
           color (fst (disturb_color d j (before_color d c s j))) j l"
proof -
  let ?b = "fold (disturb_triangle d) [0..<j] (c, s)"
  have "color (fst (mutate_disturb d c s)) j l = color (fst (disturb_triangle d j ?b)) j l"
    unfolding mutate_disturb_split [OF assms(1)]
    by (rule fold_frame [where g = "\<lambda>cs. color (fst cs) j l"])
       (simp add: color_disturb_triangle_other)
  then show ?thesis
    by (simp add: before_color_def before_vertex_def disturb_triangle_def)
qed

lemma mutate_disturb_alpha: "color (fst (mutate_disturb d c s)) j 3 = color c j 3"
  unfolding mutate_disturb_def
  by (rule fold_frame [where g = "\<lambda>cs. color (fst cs) j 3" and st = "(c, s)", simplified])
     (simp add: color_disturb_triangle_other)

lemma mutate_disturb_fit_val: "fit_val (fst (mutate_disturb d c s)) = fit_val c"
  unfolding mutate_disturb_def
  by (rule fold_frame [where g = "\<lambda>cs. fit_val (fst cs)" and st = "(c, s)", simplified]) simp

text \<open>
  Claim C7. In disturb mutation every coordinate of vertex \<open>k\<close> of triangle \<open>j\<close> and
  every colour channel of triangle \<open>j\<close> that is outside \<open>[0, 1]\<close> after the perturbing
  block is stored as the next draw of \<^verbatim>\<open>U_RND\<close>, a value of \<open>[0, 1]\<close> that does not
  depend on the perturbed value; it is not moved to the nearer bound. A value inside the
  interval is stored as it is.
\<close>

theorem disturb_redraws_out_of_range:
  assumes "j < N" "k < V"
  shows "(let pv = perturb_vertex d j k (before_vertex d c s j k);
              r0 = redraw_point j k 0 pv;
              c' = fst (mutate_disturb d c s)
          in point c' j k 0 =
               (if out_of_unit (point (fst pv) j k 0) then Finite (fst (U_RND (snd pv)))
                else point (fst pv) j k 0)
           \<and> point c' j k 1 =
               (if out_of_unit (point (fst pv) j k 1) then Finite (fst (U_RND (snd r0)))
                else point (fst pv) j k 1))
       \<and> (let pc = perturb_color d j (before_color d c s j);
              r0 = redraw_color j 0 pc;
              r1 = redraw_color j 1 r0;
              c' = fst (mutate_disturb d c s)
          in color c' j 0 =
               (if out_of_unit (color (fst pc) j 0) then Finite (fst (U_RND (snd pc)))
                else color (fst pc) j 0)
           \<and> color c' j 1 =
               (if out_of_unit (color (fst pc) j 1) then Finite (fst (U_RND (snd r0)))
                else color (fst pc) j 1)
           \<and> color c' j 2 =
               (if out_of_unit (color (fst pc) j 2) then Finite (fst (U_RND (snd r1)))
                else color (fst pc) j 2))
       \<and> in_unit (Finite (fst (U_RND t)))"
proof -
  have v: "point (fst (mutate_disturb d c s)) j k l =
             point (fst (disturb_vertex d j k (before_vertex d c s j k))) j k l" for l
    using assms by (rule mutate_disturb_point_at)
  have w: "color (fst (mutate_disturb d c s)) j l =
             color (fst (disturb_color d j (before_color d c s j))) j l" if "l < 3" for l
    using assms(1) that by (rule mutate_disturb_color_at)
  show ?thesis
    by (simp add: Let_def v w disturb_vertex_def disturb_color_def point_redraw_point
        color_redraw_color in_unit_U_RND)
qed

theorem disturb_redraws_out_of_range_witness:
  "(0::nat) < N \<and> (0::nat) < V
   \<and> point (fst (perturb_vertex (Finite 1) 0 0 (solid 1, example_draws))) 0 0 0 = Finite 2
   \<and> point (fst (mutate_disturb (Finite 1) (solid 1) example_draws)) 0 0 0
       = Finite (1073741824 / 2147483647)"
proof -
  have n: "(0::nat) < N" by (simp add: N_def)
  have v: "(0::nat) < V" by (simp add: V_def)
  have b: "before_vertex (Finite 1) (solid 1) example_draws 0 0 = (solid 1, example_draws)"
    by (simp add: before_vertex_def)
  have p: "point (fst (perturb_vertex (Finite 1) 0 0 (solid 1, example_draws))) 0 0 0 = Finite 2"
    by (simp add: perturb_vertex_def add_point_def U_RND_def RND_def rand_r_def
        example_draws_def solid_def RAND_MAX_def)
  have s: "snd (perturb_vertex (Finite 1) 0 0 (solid 1, example_draws)) = 1073741824 ## sconst 0"
    by (simp add: perturb_vertex_def add_point_def U_RND_def RND_def rand_r_def
        example_draws_def RAND_MAX_def)
  have o: "out_of_unit (Finite 2)"
    by (simp add: out_of_unit_def dgt_def)
  have "point (fst (mutate_disturb (Finite 1) (solid 1) example_draws)) 0 0 0
       = Finite (1073741824 / 2147483647)"
    using disturb_redraws_out_of_range [OF n v, of "Finite 1" "solid 1" example_draws]
    by (simp add: Let_def b p s o fst_U_RND RAND_MAX_def)
  with n v p show ?thesis by simp
qed

text \<open>
  The claim for any intensity fails at NaN: a perturbed coordinate is then NaN, both
  comparisons of the range test are false of it, and it is stored.
\<close>

theorem mutation_unbounded_at_NaN:
  "bounded (solid 1) \<and> \<not> bounded (fst (mutate_disturb NaN (solid 1) (sconst 0)))"
proof -
  have n: "(0::nat) < N" by (simp add: N_def)
  have v: "(0::nat) < V" by (simp add: V_def)
  have b: "before_vertex NaN (solid 1) (sconst 0) 0 0 = (solid 1, sconst 0)"
    by (simp add: before_vertex_def)
  have "point (fst (disturb_vertex NaN 0 0 (solid 1, sconst 0))) 0 0 0 = NaN"
    by (simp add: disturb_vertex_def point_redraw_point perturb_vertex_def add_point_def
        U_RND_def RND_def rand_r_def out_of_unit_def dgt_def solid_def)
  then have "point (fst (mutate_disturb NaN (solid 1) (sconst 0))) 0 0 0 = NaN"
    using mutate_disturb_point_at [OF n v, of NaN "solid 1" "sconst 0" 0] by (simp add: b)
  then have "\<not> in_unit (point (fst (mutate_disturb NaN (solid 1) (sconst 0))) 0 0 0)"
    by (simp add: in_unit_def)
  then have "\<not> bounded (fst (mutate_disturb NaN (solid 1) (sconst 0)))"
    using n v unfolding bounded_def by (metis zero_less_numeral)
  then show ?thesis by (simp add: bounded_solid)
qed

subsection \<open>Fitness\<close>

lemma px_unfold:
  "px window pix t = sq_diff (window ! (3 * t)) (pix ! (3 * t))
                   + sq_diff (window ! (3 * t + 1)) (pix ! (3 * t + 1))
                   + sq_diff (window ! (3 * t + 2)) (pix ! (3 * t + 2))"
  by (simp add: px_def numeral_3_eq_3 numeral_2_eq_2)

lemma sq_diff_nonneg: "0 \<le> sq_diff w p"
  by (simp add: sq_diff_def)

lemma sq_diff_le: "sq_diff w p \<le> 65025"
proof -
  have bw: "0 \<le> uint w \<and> uint w < 256" using uint_lt2p [of w] by simp
  have bp: "0 \<le> uint p \<and> uint p < 256" using uint_lt2p [of p] by simp
  have a: "\<bar>uint w - uint p\<bar> \<le> 255" using bw bp by linarith
  have "\<bar>uint w - uint p\<bar> * \<bar>uint w - uint p\<bar> \<le> 255 * 255"
    using a by (intro mult_mono) simp_all
  then show ?thesis by (simp add: sq_diff_def abs_mult_self_eq flip: abs_mult)
qed

lemma sq_diff_zero_iff: "sq_diff w p = 0 \<longleftrightarrow> w = p"
  by (simp add: sq_diff_def word_uint_eq_iff)

lemma px_nonneg: "0 \<le> px window pix t"
  by (simp add: px_def sum_nonneg sq_diff_nonneg)

lemma px_le: "px window pix t \<le> 195075"
  unfolding px_unfold
  using sq_diff_le [of "window ! (3 * t)" "pix ! (3 * t)"]
        sq_diff_le [of "window ! (3 * t + 1)" "pix ! (3 * t + 1)"]
        sq_diff_le [of "window ! (3 * t + 2)" "pix ! (3 * t + 2)"]
  by linarith

lemma fit_loop_sum:
  "q \<le> m \<Longrightarrow>
   fit_loop window pix (3 * m) (3 * q) fit = fit + word_of_int (\<Sum>t = q..<m. px window pix t)"
proof (induction "m - q" arbitrary: q fit)
  case 0
  then show ?case by (subst fit_loop.simps) simp
next
  case (Suc d)
  then have q: "q < m" and d: "d = m - Suc q" and le: "Suc q \<le> m" by simp_all
  have "fit_loop window pix (3 * m) (3 * q) fit
      = fit_loop window pix (3 * m) (3 * Suc q) (fit + word_of_int (px window pix q))"
    using q by (subst fit_loop.simps) (simp add: px_unfold ac_simps)
  also have "\<dots> = fit + word_of_int (px window pix q)
                    + word_of_int (\<Sum>t = Suc q..<m. px window pix t)"
    using Suc.hyps(1) [OF d le] .
  also have "\<dots> = fit + word_of_int (\<Sum>t = q..<m. px window pix t)"
    using q by (simp add: sum.atLeast_Suc_lessThan)
  finally show ?case .
qed

lemma fitness_as_sum:
  "fitness render input c =
     word_of_int (\<Sum>t<width input * height input. px (render c) (pixel input) t)"
  using fit_loop_sum [of 0 "width input * height input" "render c" "pixel input" 0]
  by (simp add: fitness_def mult.commute atLeast0LessThan)

lemma px_sum_bounds:
  "0 \<le> (\<Sum>t<n. px window pix t) \<and> (\<Sum>t<n. px window pix t) \<le> 195075 * int n"
proof
  show "0 \<le> (\<Sum>t<n. px window pix t)" by (simp add: sum_nonneg px_nonneg)
  have "(\<Sum>t<n. px window pix t) \<le> (\<Sum>t<n. 195075)"
    by (rule sum_mono) (rule px_le)
  then show "(\<Sum>t<n. px window pix t) \<le> 195075 * int n" by simp
qed

lemma sint_fitness:
  assumes "width input * height input * 3 < 2 ^ 31"
  shows "sint (fitness render input c) =
           (\<Sum>t<width input * height input. px (render c) (pixel input) t)"
proof -
  let ?S = "\<Sum>t<width input * height input. px (render c) (pixel input) t"
  have "width input * height input < 2147483648"
    using assms by simp
  then have "int (width input * height input) < 2147483648"
    by linarith
  then have "195075 * int (width input * height input) < 2 ^ 63" by simp
  then have "0 \<le> ?S" "?S < 2 ^ 63"
    using px_sum_bounds [where n = "width input * height input" and window = "render c" and pix = "pixel input"] by simp_all
  then have t: "signed_take_bit 63 ?S = ?S"
    by (intro signed_take_bit_int_eq_self) simp_all
  have "sint (word_of_int ?S :: 64 word) = signed_take_bit (LENGTH(64) - 1) ?S"
    by (rule sint_sbintrunc')
  also have "\<dots> = ?S"
    using t by simp
  finally show ?thesis
    by (simp only: fitness_as_sum)
qed

lemma px_sum_zero_iff:
  assumes "length window = 3 * n" "length pix = 3 * n"
  shows "(\<Sum>t<n. px window pix t) = 0 \<longleftrightarrow> window = pix"
proof -
  have "(\<Sum>t<n. px window pix t) = 0 \<longleftrightarrow> (\<forall>t<n. px window pix t = 0)"
    by (subst sum_nonneg_eq_0_iff) (auto simp: px_nonneg)
  also have "\<dots> \<longleftrightarrow> (\<forall>t<n. \<forall>ch<3. window ! (3 * t + ch) = pix ! (3 * t + ch))"
    unfolding px_def
    by (subst sum_nonneg_eq_0_iff) (auto simp: sq_diff_nonneg sq_diff_zero_iff)
  also have "\<dots> \<longleftrightarrow> (\<forall>i<3 * n. window ! i = pix ! i)"
  proof
    assume h: "\<forall>t<n. \<forall>ch<3. window ! (3 * t + ch) = pix ! (3 * t + ch)"
    show "\<forall>i<3 * n. window ! i = pix ! i"
    proof (intro allI impI)
      fix i assume "i < 3 * n"
      then have "i div 3 < n" "i mod 3 < 3" by simp_all
      with h have "window ! (3 * (i div 3) + i mod 3) = pix ! (3 * (i div 3) + i mod 3)"
        by blast
      then show "window ! i = pix ! i" by simp
    qed
  next
    assume h: "\<forall>i<3 * n. window ! i = pix ! i"
    show "\<forall>t<n. \<forall>ch<3. window ! (3 * t + ch) = pix ! (3 * t + ch)"
    proof (intro allI impI)
      fix t ch :: nat assume "t < n" "ch < 3"
      then have "3 * t + ch < 3 * n" by simp
      with h show "window ! (3 * t + ch) = pix ! (3 * t + ch)" by blast
    qed
  qed
  also have "\<dots> \<longleftrightarrow> window = pix"
    using assms by (auto simp: list_eq_iff_nth_eq)
  finally show ?thesis .
qed

text \<open>
  Claim C6. For a rendered buffer and a target buffer of \<open>width * height * 3\<close> bytes,
  \<^verbatim>\<open>fitness\<close> returns the sum over the pixels of the squared differences of the three
  channels. The sum needs no more than 48 bits, so the \<^verbatim>\<open>long long\<close> does not wrap;
  it is not negative, and it is 0 exactly when the two buffers are equal.
\<close>

theorem fitness_is_squared_error:
  assumes "length (render c) = width input * height input * 3"
    and "length (pixel input) = width input * height input * 3"
    and "width input * height input * 3 < 2 ^ 31"
  shows "sint (fitness render input c) =
           (\<Sum>t<width input * height input. \<Sum>ch<3.
              (uint (render c ! (3 * t + ch)) - uint (pixel input ! (3 * t + ch)))\<^sup>2)
       \<and> 0 \<le> sint (fitness render input c)
       \<and> (sint (fitness render input c) = 0 \<longleftrightarrow> render c = pixel input)
       \<and> (fitness render input c = 0 \<longleftrightarrow> render c = pixel input)"
proof -
  let ?n = "width input * height input"
  let ?S = "\<Sum>t<?n. px (render c) (pixel input) t"
  have s: "sint (fitness render input c) = ?S"
    using assms(3) by (rule sint_fitness)
  have e: "?S = (\<Sum>t<?n. \<Sum>ch<3.
              (uint (render c ! (3 * t + ch)) - uint (pixel input ! (3 * t + ch)))\<^sup>2)"
    by (simp add: px_def sq_diff_def power2_eq_square)
  have z: "?S = 0 \<longleftrightarrow> render c = pixel input"
    using assms(1,2) by (intro px_sum_zero_iff) (simp_all add: mult.commute)
  have w: "fitness render input c = 0 \<longleftrightarrow> sint (fitness render input c) = 0"
    by (simp only: signed_eq_0_iff)
  have nn: "0 \<le> ?S"
    using px_sum_bounds [where n = ?n and window = "render c" and pix = "pixel input"] by simp
  show ?thesis
  proof (intro conjI)
    show "sint (fitness render input c) =
           (\<Sum>t<?n. \<Sum>ch<3.
              (uint (render c ! (3 * t + ch)) - uint (pixel input ! (3 * t + ch)))\<^sup>2)"
      using s e by (rule trans)
    show "0 \<le> sint (fitness render input c)"
      using nn by (simp only: s)
    show "sint (fitness render input c) = 0 \<longleftrightarrow> render c = pixel input"
      using z by (simp only: s)
    show "fitness render input c = 0 \<longleftrightarrow> render c = pixel input"
      using z by (simp only: w s)
  qed
qed

theorem fitness_is_squared_error_witness:
  "sint (fitness (\<lambda>c. [1, 2, 5]) \<lparr>width = 1, height = 1, pixel = [1, 2, 3]\<rparr> (solid 0)) = 4
   \<and> fitness (\<lambda>c. [1, 2, 3]) \<lparr>width = 1, height = 1, pixel = [1, 2, 3]\<rparr> (solid 0) = 0"
proof -
  let ?input = "\<lparr>width = 1, height = 1, pixel = [1, 2, 3]\<rparr>"
  have "sint (fitness (\<lambda>c. [1, 2, 5]) ?input (solid 0)) = 4"
    using fitness_is_squared_error [of "\<lambda>c. [1, 2, 5]" "solid 0" ?input]
    by (simp add: numeral_3_eq_3)
  moreover have "fitness (\<lambda>c. [1, 2, 3]) ?input (solid 0) = 0"
    using fitness_is_squared_error [of "\<lambda>c. [1, 2, 3]" "solid 0" ?input]
    by simp
  ultimately show ?thesis by simp
qed

subsection \<open>The generation loop\<close>

lemma first_regenerated_eq: "first_regenerated = 7"
  by (simp add: first_regenerated_def POP_SIZE_def)

lemma length_regenerate: "length (fst (regenerate i ps)) = length (fst ps)"
  by (simp add: regenerate_def case_prod_beta)

lemma nth_regenerate_other: "i' \<noteq> i \<Longrightarrow> fst (regenerate i ps) ! i' = fst ps ! i'"
  by (simp add: regenerate_def case_prod_beta)

lemma length_gl_idle_slot: "length (fst (gl_idle_slot render input i ps)) = length (fst ps)"
  by (simp add: gl_idle_slot_def case_prod_beta length_regenerate)

lemma nth_gl_idle_slot_other:
  "i' \<noteq> i \<Longrightarrow> fst (gl_idle_slot render input i ps) ! i' = fst ps ! i'"
  by (simp add: gl_idle_slot_def case_prod_beta nth_regenerate_other)

lemma length_slots:
  "length (fst (fold (gl_idle_slot render input) xs ps)) = length (fst ps)"
  by (rule fold_frame [where g = "\<lambda>ps. length (fst ps)"]) (rule length_gl_idle_slot)

lemma nth_slots_other:
  assumes "i' \<notin> set xs"
  shows "fst (fold (gl_idle_slot render input) xs ps) ! i' = fst ps ! i'"
proof (rule fold_frame [where g = "\<lambda>ps. fst ps ! i'"])
  fix i and st :: "Chromosome list \<times> rng"
  assume "i \<in> set xs"
  then have "i' \<noteq> i" using assms by auto
  then show "fst (gl_idle_slot render input i st) ! i' = fst st ! i'"
    by (rule nth_gl_idle_slot_other)
qed

lemma population_gl_idle:
  "population (gl_idle srt render input st) =
     fst (fold (gl_idle_slot render input) [first_regenerated..<POP_SIZE]
            (srt (population st), seed st))"
  by (simp add: gl_idle_def case_prod_beta)

lemma sorts_by_key_mset: "sorts_by_key srt \<Longrightarrow> mset (srt xs) = mset xs"
  by (simp add: sorts_by_key_def)

lemma sorts_by_key_set: "sorts_by_key srt \<Longrightarrow> set (srt xs) = set xs"
  using sorts_by_key_mset [of srt xs] by (metis set_mset_mset)

lemma sorts_by_key_length: "sorts_by_key srt \<Longrightarrow> length (srt xs) = length xs"
  using sorts_by_key_mset [of srt xs] by (metis size_mset)

lemma sorts_by_key_sorted: "sorts_by_key srt \<Longrightarrow> sorted_by_fitness (srt xs)"
  by (simp add: sorts_by_key_def)

lemma sorted_by_fitness_map:
  "sorted_by_fitness pop \<longleftrightarrow> sorted (map (\<lambda>c. sint (fit_val c)) pop)"
  by (simp add: sorted_by_fitness_def key_def sorted_map not_less)

lemma length_gl_idle:
  "sorts_by_key srt \<Longrightarrow>
     length (population (gl_idle srt render input st)) = length (population st)"
  by (simp add: population_gl_idle length_slots sorts_by_key_length)

lemma elite_gl_idle:
  assumes "i < first_regenerated"
  shows "population (gl_idle srt render input st) ! i = srt (population st) ! i"
  unfolding population_gl_idle using assms by (simp add: nth_slots_other)

lemma min_fit_le_first:
  assumes "sorted_by_fitness sp" "set sp = set pop" "sp \<noteq> []"
  shows "sint (fit_val (sp ! 0)) \<le> min_fit pop"
proof -
  let ?f = "\<lambda>c. sint (fit_val c)"
  have s: "sorted (map ?f sp)" using assms(1) by (simp add: sorted_by_fitness_map)
  have "?f (sp ! 0) \<le> x" if "x \<in> set (map ?f pop)" for x
  proof -
    from that assms(2) obtain c where c: "c \<in> set sp" "x = ?f c" by auto
    then obtain j where j: "j < length sp" "sp ! j = c" by (auto simp: in_set_conv_nth)
    have "map ?f sp ! 0 \<le> map ?f sp ! j"
      using s j(1) by (intro sorted_nth_mono) simp_all
    then show ?thesis using j c assms(3) by simp
  qed
  moreover have "set (map ?f pop) \<noteq> {}" using assms(2,3) by auto
  ultimately show ?thesis by (simp add: min_fit_def)
qed

text \<open>
  Claim C3. One call of \<^verbatim>\<open>gl_idle\<close> never increases the least cached score of the
  population: slot 0 holds the least score after the sort, and the loop starts at slot
  \<open>first_regenerated = 7\<close>.
\<close>

theorem best_fitness_never_increases:
  assumes "sorts_by_key srt" "length (population st) = POP_SIZE"
  shows "min_fit (population (gl_idle srt render input st)) \<le> min_fit (population st)"
proof -
  let ?sp = "srt (population st)"
  let ?new = "population (gl_idle srt render input st)"
  have len: "length ?new = POP_SIZE" "length ?sp = POP_SIZE"
    using assms by (simp_all add: length_gl_idle sorts_by_key_length)
  have pos: "0 < POP_SIZE" by (simp add: POP_SIZE_def)
  have e: "?new ! 0 = ?sp ! 0"
    by (rule elite_gl_idle) (simp add: first_regenerated_eq)
  have "?new ! 0 \<in> set ?new" using len pos by (intro nth_mem) simp
  then have "min_fit ?new \<le> sint (fit_val (?new ! 0))"
    unfolding min_fit_def by (intro Min_le) auto
  also have "\<dots> = sint (fit_val (?sp ! 0))" by (simp only: e)
  also have "\<dots> \<le> min_fit (population st)"
    using assms(1) len pos
    by (intro min_fit_le_first)
       (auto simp: sorts_by_key_sorted sorts_by_key_set)
  finally show ?thesis .
qed

subsection \<open>Sorting and the elite\<close>

lemma sorts_by_key_tie_reversing_sort: "sorts_by_key tie_reversing_sort"
proof -
  have "sorted_by_fitness (tie_reversing_sort xs)" for xs
  proof -
    let ?f = "\<lambda>c. sint (fit_val c)"
    let ?ys = "sort_key (\<lambda>c. - ?f c) xs"
    have "sorted (map (\<lambda>c. - ?f c) ?ys)" by (rule sorted_sort_key)
    then have "sorted_wrt (\<lambda>a b. ?f b \<le> ?f a) ?ys" by (simp add: sorted_map)
    then have "sorted_wrt (\<lambda>a b. ?f a \<le> ?f b) (rev ?ys)" by (simp add: sorted_wrt_rev)
    then show ?thesis
      by (simp add: sorted_by_fitness_map sorted_map tie_reversing_sort_def)
  qed
  then show ?thesis by (simp add: sorts_by_key_def tie_reversing_sort_def)
qed

lemma length_tied_population: "length tied_population = POP_SIZE"
  by (simp add: tied_population_def POP_SIZE_def)

lemma fit_val_tied_population: "c \<in> set tied_population \<Longrightarrow> fit_val c = 0"
  by (auto simp: tied_population_def solid_def)

lemma sorted_tied_population: "sorted_by_fitness tied_population"
  unfolding sorted_by_fitness_def
  by (rule sorted_wrt_mono_rel [of _ "\<lambda>a b. True"]) (simp_all add: key_def fit_val_tied_population)

lemma tie_reversing_sort_tied_population:
  "tie_reversing_sort tied_population = replicate 29 (solid 1) @ [solid 0]"
proof -
  have "sorted (map (\<lambda>c. - sint (fit_val c)) tied_population)"
    by (simp add: tied_population_def solid_def)
  then have "sort_key (\<lambda>c. - sint (fit_val c)) tied_population = tied_population"
    by (rule sort_key_id_if_sorted)
  then show ?thesis
    by (simp add: tie_reversing_sort_def) (simp add: tied_population_def)
qed

lemma sorted_same_scores:
  assumes "sorts_by_key srt" "sorted_by_fitness pop"
  shows "map fit_val (srt pop) = map fit_val pop"
proof -
  let ?f = "\<lambda>c. sint (fit_val c)"
  have m: "mset (map ?f (srt pop)) = mset (map ?f pop)"
    using sorts_by_key_mset [OF assms(1), of pop] by (metis mset_map)
  have s1: "sorted (map ?f (srt pop))"
    using sorts_by_key_sorted [OF assms(1), of pop] by (simp add: sorted_by_fitness_map)
  have s2: "sorted (map ?f pop)"
    using assms(2) by (simp add: sorted_by_fitness_map)
  have "sort (map ?f pop) = map ?f (srt pop)"
    using m s1 by (rule properties_for_sort)
  moreover have "sort (map ?f pop) = map ?f pop"
    using s2 by (rule sort_key_id_if_sorted [where f = "\<lambda>x. x", simplified])
  ultimately have "map ?f (srt pop) = map ?f pop"
    by simp
  then have "map sint (map fit_val (srt pop)) = map sint (map fit_val pop)"
    by (simp add: comp_def)
  moreover have "inj (sint :: 64 word \<Rightarrow> int)"
    by (rule injI) (rule signed_word_eqI)
  ultimately show ?thesis
    by (simp only: inj_map_eq_map)
qed

lemma sorted_unchanged:
  assumes "sorts_by_key srt" "sorted_by_fitness pop" "inj_on fit_val (set pop)"
  shows "srt pop = pop"
proof -
  have "inj_on fit_val (set (srt pop) \<union> set pop)"
    using assms(3) by (simp add: sorts_by_key_set [OF assms(1)])
  then show ?thesis
    using sorted_same_scores [OF assms(1,2)] by (simp only: inj_on_map_eq_map)
qed

text \<open>A sorted population of different genomes, and one generation on the zero stream.\<close>

lemma length_ranked_population: "length ranked_population = POP_SIZE"
  by (simp add: ranked_population_def)

lemma nth_ranked_population:
  "n < POP_SIZE \<Longrightarrow>
     ranked_population ! n = (solid (real n / 29))\<lparr>fit_val := word_of_nat n\<rparr>"
  by (simp add: ranked_population_def)

lemma sint_small: "n < 30 \<Longrightarrow> sint (word_of_nat n :: 64 word) = int n"
proof -
  assume "n < 30"
  then have "- (2 ^ 63) \<le> int n" "int n < 2 ^ 63" by simp_all
  then have "signed_take_bit 63 (int n) = int n"
    by (rule signed_take_bit_int_eq_self)
  then show ?thesis by (simp add: signed_of_nat)
qed

lemma scores_ranked_population:
  "map (\<lambda>c. sint (fit_val c)) ranked_population = map int [0..<POP_SIZE]"
  by (simp add: ranked_population_def POP_SIZE_def sint_small)

lemma sorted_ranked_population: "sorted_by_fitness ranked_population"
  by (simp add: sorted_by_fitness_map scores_ranked_population sorted_map)

lemma inj_ranked_population: "inj_on fit_val (set ranked_population)"
proof -
  have "distinct (map int [0..<POP_SIZE])"
    by (simp add: distinct_map inj_on_def)
  then have "distinct (map (\<lambda>c. sint (fit_val c)) ranked_population)"
    by (simp only: scores_ranked_population)
  then have "inj_on (\<lambda>c. sint (fit_val c)) (set ranked_population)"
    by (simp add: distinct_map)
  then show ?thesis
    by (auto simp: inj_on_def)
qed

lemma triangle_at_fit_val [simp]: "triangle_at (c\<lparr>fit_val := x\<rparr>) i = triangle_at c i"
  by (simp add: triangle_at_def vertices_def rgb_def)

lemma pick_index_zero: "pick_index (sconst 0) = (0, sconst 0)"
  by (simp add: pick_index_def U_RND_def rand_r_def POP_SIZE_def)

lemma regenerate_zero_stream:
  assumes "i < length pop"
  shows "triangle_at (fst (regenerate i (pop, sconst 0)) ! i) 0 = triangle_at (pop ! 0) 0"
proof -
  have n: "(0::nat) < N" by (simp add: N_def)
  have u: "U_RND (sconst 0) = (0, sconst 0)"
    by (simp add: U_RND_def rand_r_def)
  have "fst (regenerate i (pop, sconst 0)) ! i
      = fst (one_point_co (pop ! 0) (pop ! 0) (pop ! i) (sconst 0))"
    using assms by (simp add: regenerate_def u pick_index_zero case_prod_beta)
  then show ?thesis
    using one_point_co_triangle [OF n, of "pop ! 0" "pop ! 0" "pop ! i" "sconst 0"] by simp
qed

lemma gl_idle_slot_zero_stream:
  assumes "i < length pop"
  shows "triangle_at (fst (gl_idle_slot render input i (pop, sconst 0)) ! i) 0
           = triangle_at (pop ! 0) 0"
proof -
  have "i < length (fst (regenerate i (pop, sconst 0)))"
    using assms by (simp add: length_regenerate)
  then show ?thesis
    using regenerate_zero_stream [OF assms]
    by (simp add: gl_idle_slot_def case_prod_beta)
qed

lemma first_slot_zero_stream:
  assumes "length pop = POP_SIZE"
  shows "triangle_at (fst (fold (gl_idle_slot render input) [first_regenerated..<POP_SIZE]
                             (pop, sconst 0)) ! first_regenerated) 0
           = triangle_at (pop ! 0) 0"
proof -
  have lt: "first_regenerated < POP_SIZE"
    by (simp add: first_regenerated_eq POP_SIZE_def)
  then have split: "[first_regenerated..<POP_SIZE]
      = first_regenerated # [Suc first_regenerated..<POP_SIZE]"
    by (rule upt_conv_Cons)
  have "fst (fold (gl_idle_slot render input) [first_regenerated..<POP_SIZE] (pop, sconst 0))
          ! first_regenerated
      = fst (gl_idle_slot render input first_regenerated (pop, sconst 0)) ! first_regenerated"
    by (subst split) (simp add: nth_slots_other)
  then show ?thesis
    using gl_idle_slot_zero_stream [of first_regenerated pop render input] lt assms by simp
qed

text \<open>
  Claim C4, amended. For a population sorted by cached score at the start of a generation,
  the loop of \<^verbatim>\<open>gl_idle\<close> writes no elite slot: after the step such a slot holds what
  the sort put there. That is a genome of the old population with the score the slot had
  before; it is the very genome the slot held before when genomes with equal scores are
  equal, in particular when the scores are pairwise different.
\<close>

theorem elite_slots_preserved:
  assumes "sorts_by_key srt"
    and "length (population st) = POP_SIZE"
    and "sorted_by_fitness (population st)"
    and "i < first_regenerated"
  shows "population (gl_idle srt render input st) ! i = srt (population st) ! i
       \<and> fit_val (population (gl_idle srt render input st) ! i) = fit_val (population st ! i)
       \<and> population (gl_idle srt render input st) ! i \<in> set (population st)
       \<and> (inj_on fit_val (set (population st)) \<longrightarrow>
            population (gl_idle srt render input st) ! i = population st ! i)"
proof -
  let ?pop = "population st"
  have e: "population (gl_idle srt render input st) ! i = srt ?pop ! i"
    using assms(4) by (rule elite_gl_idle)
  have i: "i < length ?pop" "i < length (srt ?pop)"
    using assms(1,2,4) by (simp_all add: first_regenerated_eq POP_SIZE_def sorts_by_key_length)
  have "map fit_val (srt ?pop) ! i = map fit_val ?pop ! i"
    using sorted_same_scores [OF assms(1,3)] by simp
  then have f: "fit_val (srt ?pop ! i) = fit_val (?pop ! i)"
    using i by simp
  have m: "srt ?pop ! i \<in> set ?pop"
    using i(2) sorts_by_key_set [OF assms(1), of ?pop] nth_mem by blast
  have u: "srt ?pop ! i = ?pop ! i" if "inj_on fit_val (set ?pop)"
    using sorted_unchanged [OF assms(1,3) that] by simp
  show ?thesis using e f m u by simp
qed

theorem elite_slots_preserved_witness:
  "sorts_by_key tie_reversing_sort
   \<and> length ranked_population = POP_SIZE
   \<and> sorted_by_fitness ranked_population
   \<and> inj_on fit_val (set ranked_population)
   \<and> take first_regenerated
        (population (gl_idle tie_reversing_sort black_render black_image
           \<lparr>population = ranked_population, seed = sconst 0, epochs = 0\<rparr>))
      = take first_regenerated ranked_population
   \<and> triangle_at (population (gl_idle tie_reversing_sort black_render black_image
           \<lparr>population = ranked_population, seed = sconst 0, epochs = 0\<rparr>)
         ! first_regenerated) 0
      \<noteq> triangle_at (ranked_population ! first_regenerated) 0"
proof -
  let ?st = "\<lparr>population = ranked_population, seed = sconst 0, epochs = 0\<rparr>"
  let ?new = "population (gl_idle tie_reversing_sort black_render black_image ?st)"
  note k = sorts_by_key_tie_reversing_sort
  have l: "length (population ?st) = POP_SIZE" by (simp add: length_ranked_population)
  have s: "sorted_by_fitness (population ?st)" by (simp add: sorted_ranked_population)
  have j: "inj_on fit_val (set (population ?st))" by (simp add: inj_ranked_population)
  have e: "?new ! i = ranked_population ! i" if "i < first_regenerated" for i
  proof -
    have "?new ! i = population ?st ! i"
      using elite_slots_preserved [OF k l s that, of black_render black_image] j by blast
    then show ?thesis by simp
  qed
  have ln: "length ?new = POP_SIZE"
    using length_gl_idle [OF k, of black_render black_image ?st] l by simp
  have t: "take first_regenerated ?new = take first_regenerated ranked_population"
    by (rule nth_equalityI) (simp_all add: ln length_ranked_population e)
  have u: "tie_reversing_sort ranked_population = ranked_population"
    using sorted_unchanged [OF k] s j by simp
  have "triangle_at (?new ! first_regenerated) 0 = triangle_at (ranked_population ! 0) 0"
    using first_slot_zero_stream [OF length_ranked_population, of black_render black_image]
    by (simp add: population_gl_idle u)
  also have "\<dots> = triangle_at (solid 0) 0"
    by (simp add: nth_ranked_population POP_SIZE_def)
  finally have d: "triangle_at (?new ! first_regenerated) 0
      \<noteq> triangle_at (ranked_population ! first_regenerated) 0"
    by (simp add: nth_ranked_population first_regenerated_eq POP_SIZE_def
        triangle_at_def rgb_def solid_def)
  show ?thesis
    using k length_ranked_population sorted_ranked_population inj_ranked_population t d
    by (intro conjI)
qed

text \<open>
  The claim as stated fails when two different genomes have the same score: a sort that
  meets the contract of \<^verbatim>\<open>std::sort\<close> may exchange them, and elite slot 0 then holds
  other triangles than before the step.
\<close>

theorem elite_slot_changed_by_ties:
  "sorts_by_key tie_reversing_sort
   \<and> length tied_population = POP_SIZE
   \<and> sorted_by_fitness tied_population
   \<and> (0::nat) < first_regenerated
   \<and> triangle_at (population (gl_idle tie_reversing_sort black_render black_image
        \<lparr>population = tied_population, seed = sconst 0, epochs = 0\<rparr>) ! 0) 0
      \<noteq> triangle_at (tied_population ! 0) 0"
proof -
  let ?st = "\<lparr>population = tied_population, seed = sconst 0, epochs = 0\<rparr>"
  have p: "(0::nat) < first_regenerated" by (simp add: first_regenerated_eq)
  have "population (gl_idle tie_reversing_sort black_render black_image ?st) ! 0
      = tie_reversing_sort tied_population ! 0"
    using elite_gl_idle [OF p, of tie_reversing_sort black_render black_image ?st] by simp
  also have "\<dots> = solid 1"
    by (simp add: tie_reversing_sort_tied_population nth_append)
  finally have "triangle_at (population (gl_idle tie_reversing_sort black_render black_image ?st) ! 0) 0
      = triangle_at (solid 1) 0"
    by simp
  moreover have "tied_population ! 0 = solid 0" by (simp add: tied_population_def)
  moreover have "triangle_at (solid 1) 0 \<noteq> triangle_at (solid 0) 0"
    by (simp add: triangle_at_def rgb_def solid_def)
  ultimately show ?thesis
    using sorts_by_key_tie_reversing_sort length_tied_population sorted_tied_population p
    by simp
qed

theorem best_fitness_never_increases_witness:
  "sorts_by_key tie_reversing_sort
   \<and> length tied_population = POP_SIZE
   \<and> min_fit (population (gl_idle tie_reversing_sort black_render black_image
        \<lparr>population = tied_population, seed = sconst 0, epochs = 0\<rparr>))
      \<le> min_fit tied_population"
  using best_fitness_never_increases [OF sorts_by_key_tie_reversing_sort,
      of "\<lparr>population = tied_population, seed = sconst 0, epochs = 0\<rparr>" black_render black_image]
    sorts_by_key_tie_reversing_sort length_tied_population
  by simp

subsection \<open>The alpha channel\<close>

lemma change_triangle_alpha:
  "color (fst (change_triangle i cs)) j 3 = color (fst cs) j 3"
proof -
  have "color (fst (fold (\<lambda>j cs. change_coord i j 1 (change_coord i j 0 cs)) [0..<V] cs))
          = color (fst cs)"
    by (rule fold_frame [where g = "\<lambda>cs. color (fst cs)"]) simp
  then show ?thesis
    by (simp add: change_triangle_def color_change_color)
qed

lemma mutate_change_alpha: "color (fst (mutate_change c s)) j 3 = color c j 3"
  unfolding mutate_change_def
  by (rule fold_frame [where g = "\<lambda>cs. color (fst cs) j 3" and st = "(c, s)", simplified])
     (rule change_triangle_alpha)

lemma nth_update_alpha:
  assumes "color c j 3 = color (xs ! i) j 3"
  shows "color (xs[i := c] ! i') j 3 = color (xs ! i') j 3"
proof (cases "i' = i")
  case True
  show ?thesis
  proof (cases "i < length xs")
    case True
    with \<open>i' = i\<close> assms show ?thesis by simp
  next
    case False
    then show ?thesis by (simp add: list_update_beyond)
  qed
next
  case False
  then show ?thesis by simp
qed

lemma regenerate_alpha:
  "color (fst (regenerate i ps) ! i') j 3 = color (fst ps ! i') j 3"
  by (simp add: regenerate_def case_prod_beta nth_update_alpha one_point_co_alpha
      n_points_co_alpha mutate_disturb_alpha mutate_change_alpha)

lemma gl_idle_slot_alpha:
  "color (fst (gl_idle_slot render input i ps) ! i') j 3 = color (fst ps ! i') j 3"
  by (simp add: gl_idle_slot_def case_prod_beta nth_update_alpha regenerate_alpha)

lemma slots_alpha:
  "color (fst (fold (gl_idle_slot render input) xs ps) ! i') j 3 = color (fst ps ! i') j 3"
  by (rule fold_frame [where g = "\<lambda>ps. color (fst ps ! i') j 3"]) (rule gl_idle_slot_alpha)

lemma alpha_fixed_nth:
  "list_all alpha_fixed pop \<longleftrightarrow> (\<forall>i<length pop. \<forall>j<N. color (pop ! i) j 3 = Finite OPACITY)"
  by (simp add: list_all_length alpha_fixed_def)

lemma gl_idle_alpha_fixed:
  assumes "sorts_by_key srt" "list_all alpha_fixed (population st)"
  shows "list_all alpha_fixed (population (gl_idle srt render input st))"
proof -
  have "list_all alpha_fixed (srt (population st))"
    using assms by (simp add: list_all_iff sorts_by_key_set)
  then show ?thesis
    by (simp add: alpha_fixed_nth population_gl_idle slots_alpha length_slots)
qed

text \<open>Initialisation.\<close>

lemma color_gen_point [simp]: "color (fst (gen_point j k l cs)) = color (fst cs)"
  by (simp add: gen_point_def case_prod_beta)

lemma color_gen_color:
  "color (fst (gen_color j l cs)) j' l' =
     (if j' = j \<and> l' = l then Finite (fst (U_RND (snd cs))) else color (fst cs) j' l')"
  by (simp add: gen_color_def case_prod_beta)

lemma gen_triangle_alpha:
  "color (fst (gen_triangle j cs)) j' 3 =
     (if j' = j then Finite OPACITY else color (fst cs) j' 3)"
proof -
  have "color (fst (fold (\<lambda>k cs. gen_point j k 1 (gen_point j k 0 cs)) [0..<V] cs)) = color (fst cs)"
    by (rule fold_frame [where g = "\<lambda>cs. color (fst cs)"]) simp
  then show ?thesis
    by (simp add: gen_triangle_def case_prod_beta color_gen_color)
qed

lemma gen_chromosome_alpha_fixed: "alpha_fixed (fst (fold gen_triangle [0..<N] cs))"
  unfolding alpha_fixed_def
proof (intro allI impI)
  fix j assume "j < N"
  then have "j \<in> set [0..<N]" by simp
  then show "color (fst (fold gen_triangle [0..<N] cs)) j 3 = Finite OPACITY"
    by (rule fold_establish [where Q = "\<lambda>cs. color (fst cs) j 3 = Finite OPACITY"])
       (simp_all add: gen_triangle_alpha)
qed

lemma gen_pop_length: "length (fst (gen_pop pop s)) = length pop"
  unfolding gen_pop_def
  by (rule fold_frame [where g = "\<lambda>ps. length (fst ps)" and st = "(pop, s)", simplified])
     (simp add: case_prod_beta)

lemma gen_pop_alpha_fixed:
  assumes "length pop = POP_SIZE"
  shows "list_all alpha_fixed (fst (gen_pop pop s))"
proof -
  let ?step = "\<lambda>i ps. case ps of (pop, s) \<Rightarrow>
                     case fold gen_triangle [0..<N] (pop ! i, s) of
                       (c, s') \<Rightarrow> (pop[i := c], s')"
  have "alpha_fixed (fst (gen_pop pop s) ! i)" if "i < POP_SIZE" for i
  proof -
    have "i \<in> set [0..<POP_SIZE]" using that by simp
    then have "i < length (fst (fold ?step [0..<POP_SIZE] (pop, s))) \<longrightarrow>
        alpha_fixed (fst (fold ?step [0..<POP_SIZE] (pop, s)) ! i)"
    proof (rule fold_establish
        [where Q = "\<lambda>ps. i < length (fst ps) \<longrightarrow> alpha_fixed (fst ps ! i)"])
      fix st :: "Chromosome list \<times> rng"
      show "i < length (fst (?step i st)) \<longrightarrow> alpha_fixed (fst (?step i st) ! i)"
        by (simp add: case_prod_beta gen_chromosome_alpha_fixed)
    next
      fix j and st :: "Chromosome list \<times> rng"
      assume "i < length (fst st) \<longrightarrow> alpha_fixed (fst st ! i)"
      then show "i < length (fst (?step j st)) \<longrightarrow> alpha_fixed (fst (?step j st) ! i)"
        by (cases "j = i") (simp_all add: case_prod_beta gen_chromosome_alpha_fixed)
    qed
    then show ?thesis
      using that assms gen_pop_length [of pop s] by (simp add: gen_pop_def)
  qed
  then show ?thesis
    using assms gen_pop_length [of pop s] by (simp add: list_all_length)
qed

lemma main_init_alpha_fixed:
  assumes "sorts_by_key srt"
  shows "length (population (main_init srt render input s0)) = POP_SIZE"
    and "list_all alpha_fixed (population (main_init srt render input s0))"
proof -
  let ?pop = "fst (gen_pop (replicate POP_SIZE Chromosome0) s0)"
  let ?ev = "map (\<lambda>c. c\<lparr>fit_val := fitness render input c\<rparr>) ?pop"
  have p: "population (main_init srt render input s0) = srt ?ev"
    by (simp add: main_init_def case_prod_beta)
  have l: "length ?pop = POP_SIZE" by (simp add: gen_pop_length)
  then show "length (population (main_init srt render input s0)) = POP_SIZE"
    using assms by (simp add: p sorts_by_key_length)
  have "list_all alpha_fixed ?pop"
    by (rule gen_pop_alpha_fixed) simp
  then have "list_all alpha_fixed ?ev"
    by (simp add: list_all_iff alpha_fixed_def)
  then show "list_all alpha_fixed (population (main_init srt render input s0))"
    using assms by (simp add: p list_all_iff sorts_by_key_set)
qed

text \<open>
  Claim C8. In every state the program reaches after initialisation, the population has
  POP_SIZE genomes and the alpha channel of every triangle of every genome is OPACITY;
  neither crossover operator and neither mutation operator changes an alpha channel.
\<close>

theorem alpha_stays_fixed:
  assumes "sorts_by_key srt" "reachable srt render input st"
  shows "length (population st) = POP_SIZE
       \<and> list_all alpha_fixed (population st)
       \<and> color (fst (one_point_co a b c s)) j 3 = color c j 3
       \<and> color (fst (n_points_co a b c s)) j 3 = color c j 3
       \<and> color (fst (mutate_disturb d c s)) j 3 = color c j 3
       \<and> color (fst (mutate_change c s)) j 3 = color c j 3"
proof -
  have "length (population st) = POP_SIZE \<and> list_all alpha_fixed (population st)"
    using assms(2)
  proof (induction rule: reachable.induct)
    case (start s0)
    show ?case using main_init_alpha_fixed [OF assms(1)] by simp
  next
    case (generation st)
    then show ?case
      using assms(1) by (simp add: length_gl_idle gl_idle_alpha_fixed)
  qed
  then show ?thesis
    by (simp add: one_point_co_alpha n_points_co_alpha mutate_disturb_alpha mutate_change_alpha)
qed

theorem alpha_stays_fixed_witness:
  "sorts_by_key tie_reversing_sort
   \<and> reachable tie_reversing_sort black_render black_image
        (gl_idle tie_reversing_sort black_render black_image
           (main_init tie_reversing_sort black_render black_image (sconst 0)))
   \<and> list_all alpha_fixed (population
        (gl_idle tie_reversing_sort black_render black_image
           (main_init tie_reversing_sort black_render black_image (sconst 0))))"
proof -
  let ?st = "gl_idle tie_reversing_sort black_render black_image
           (main_init tie_reversing_sort black_render black_image (sconst 0))"
  have r: "reachable tie_reversing_sort black_render black_image ?st"
    by (intro reachable.generation reachable.start)
  show ?thesis
    using alpha_stays_fixed [OF sorts_by_key_tie_reversing_sort r] r
      sorts_by_key_tie_reversing_sort
    by simp
qed

end
